theory Spec2Isabelle
  imports Complex_Main "HOL-Library.Sublist" "HOL-Library.Word"
begin

section \<open>The management SDK: \<open>src/script/management-sdk.ts\<close>\<close>

text \<open>
  A shallow embedding of the parts of \<open>AccountManager\<close> that carry logic of their own:
  the constructor, \<open>appNameParam\<close>, \<open>generateRandomFilename\<close> and
  \<open>packageFileFromPath\<close>. JavaScript strings are modelled as \<open>string\<close>; values thrown
  or passed to \<open>reject\<close> are values of the type \<open>error\<close>.
\<close>

subsection \<open>Errors\<close>

datatype error =
    CodePushUnauthorizedError string  \<comment> \<open>\<open>new CodePushUnauthorizedError(message)\<close>\<close>
  | HostError string                  \<comment> \<open>an error object made by Node or by a library\<close>

subsection \<open>\<open>appNameParam\<close>\<close>

text \<open>
  \<open>String.prototype.replace(pattern, replacement)\<close> with a string pattern replaces the
  first occurrence of the pattern only. (The replacement \<open>"~~"\<close> holds no \<open>$\<close>, so
  no replacement pattern is expanded.)
\<close>

fun js_replace :: "string \<Rightarrow> string \<Rightarrow> string \<Rightarrow> string" where
  "js_replace pat rep [] = (if pat = [] then rep else [])"
| "js_replace pat rep (c # cs) =
     (if prefix pat (c # cs) then rep @ drop (length pat) (c # cs)
      else c # js_replace pat rep cs)"

definition appNameParam :: "string \<Rightarrow> string" where
  "appNameParam appName = js_replace ''/'' ''~~'' appName"

subsection \<open>The constructor of \<open>AccountManager\<close>\<close>

text \<open>
  \<open>Headers\<close> is a dictionary of strings (its declaration is in \<open>./types\<close>). The
  optional parameters \<open>customHeaders\<close>, \<open>serverUrl\<close> and \<open>proxy\<close> are options,
  and so is \<open>accessKey\<close>: TypeScript's \<open>string\<close> does not keep a caller from
  passing \<open>undefined\<close> or \<open>null\<close>, which \<open>!accessKey\<close> tests for as well.

  \<open>RequestManager\<close> and \<open>Adapter\<close> are classes of \<open>../utils\<close>; their
  constructors are parameters of the model and may throw.
\<close>

type_synonym Headers = "(string \<times> string) list"

record ('rm, 'ad) AccountManager =
  priv_accessKey :: string
  priv_requestManager :: 'rm
  priv_adapter :: 'ad

text \<open>\<open>!accessKey\<close>: \<open>undefined\<close>, \<open>null\<close> and the empty string are falsy, every
  other string is truthy.\<close>

definition falsy :: "string option \<Rightarrow> bool" where
  "falsy v = (case v of None \<Rightarrow> True | Some s \<Rightarrow> s = [])"

definition new_AccountManager ::
  "(string \<Rightarrow> Headers option \<Rightarrow> string option \<Rightarrow> string option \<Rightarrow> error + 'rm) \<Rightarrow>
   ('rm \<Rightarrow> error + 'ad) \<Rightarrow>
   string option \<Rightarrow> Headers option \<Rightarrow> string option \<Rightarrow> string option \<Rightarrow>
   error + ('rm, 'ad) AccountManager" where
  "new_AccountManager new_RequestManager new_Adapter accessKey customHeaders serverUrl proxy =
     (case accessKey of
        None \<Rightarrow> Inl (CodePushUnauthorizedError ''A token must be specified.'')
      | Some key \<Rightarrow>
          if falsy (Some key) then Inl (CodePushUnauthorizedError ''A token must be specified.'')
          else
            (case new_RequestManager key customHeaders serverUrl proxy of
               Inl e \<Rightarrow> Inl e
             | Inr rm \<Rightarrow>
                 (case new_Adapter rm of
                    Inl e \<Rightarrow> Inl e
                  | Inr ad \<Rightarrow>
                      Inr \<lparr>priv_accessKey = key, priv_requestManager = rm, priv_adapter = ad\<rparr>)))"

text \<open>The getter \<open>get accessKey()\<close>.\<close>

definition accessKey :: "('rm, 'ad) AccountManager \<Rightarrow> string" where
  "accessKey this = priv_accessKey this"

subsection \<open>\<open>generateRandomFilename\<close>\<close>

text \<open>
  \<open>String.prototype.charAt(i)\<close> is the one-character string at index \<open>i\<close>, and the
  empty string when \<open>i\<close> is out of range.
\<close>

definition charAt :: "string \<Rightarrow> int \<Rightarrow> string" where
  "charAt s i = (if 0 \<le> i \<and> i < int (length s) then [s ! nat i] else [])"

definition validChar :: string where
  "validChar = ''ABCDEFGHIJKLMNOPQRSTUVWXYZabcdefghijklmnopqrstuvwxyz0123456789''"

text \<open>
  JavaScript numbers are IEEE 754 doubles. \<open>binary64 x\<close> is the double nearest to the
  real \<open>x\<close>, ties going to the even significand: with \<open>e\<close> the exponent of the
  binade of \<open>x\<close>, the least exponent from \<open>-1022\<close> on (where the subnormal numbers
  begin) with \<open>\<bar>x\<bar> < 2 ^ (e + 1)\<close>, the doubles around \<open>x\<close> are the multiples of
  \<open>2 ^ (e - 52)\<close>. (Overflow to infinity, from \<open>2 ^ 1024\<close> on, is out of reach
  here and not modelled.) A real is a double when rounding leaves it as it is.
\<close>

definition round_half_even :: "real \<Rightarrow> int" where
  "round_half_even x =
     (let f = \<lfloor>x\<rfloor>; d = x - of_int f
      in if d < 1 / 2 then f else if 1 / 2 < d then f + 1 else if even f then f else f + 1)"

definition pow2 :: "int \<Rightarrow> real" where
  "pow2 e = (if 0 \<le> e then 2 ^ nat e else 1 / 2 ^ nat (- e))"

definition binade :: "real \<Rightarrow> int" where
  "binade x =
     (case find (\<lambda>e. \<bar>x\<bar> < pow2 (e + 1)) [- 1022..1023] of Some e \<Rightarrow> e | None \<Rightarrow> 1023)"

definition binary64 :: "real \<Rightarrow> real" where
  "binary64 x =
     (if x = 0 then 0
      else
        (let e = binade x;
             q = pow2 (e - 52)
         in q * of_int (round_half_even (x / q))))"

definition is_double :: "real \<Rightarrow> bool" where
  "is_double x = (binary64 x = x)"

text \<open>
  \<open>Math.random()\<close> is ambient state: \<open>random k\<close> is the value its \<open>k\<close>-th call
  returns during one run of \<open>generateRandomFilename\<close>. Its contract, a double \<open>r\<close>
  with \<open>0 \<le> r < 1\<close>, is a hypothesis wherever it is needed. The product
  \<open>Math.random() * validChar.length\<close> is the rounded product of two doubles, and
  \<open>Math.floor\<close> is taken of that. The loop \<open>for (var i = 0; i < length; i++)\<close> is
  the recursion on \<open>i\<close>.
\<close>

function generateRandomFilename_loop :: "(nat \<Rightarrow> real) \<Rightarrow> nat \<Rightarrow> nat \<Rightarrow> string \<Rightarrow> string" where
  "generateRandomFilename_loop random len i filename =
     (if i < len
      then generateRandomFilename_loop random len (i + 1)
             (filename @ charAt validChar \<lfloor>binary64 (random i * real (length validChar))\<rfloor>)
      else filename)"
  by pat_completeness auto
termination
  by (relation "measure (\<lambda>(random, len, i, filename). len - i)") auto

declare generateRandomFilename_loop.simps [simp del]

definition generateRandomFilename :: "(nat \<Rightarrow> real) \<Rightarrow> nat \<Rightarrow> string" where
  "generateRandomFilename random len = generateRandomFilename_loop random len 0 []"

subsection \<open>Node's \<open>path\<close> module on a POSIX host, and \<open>slash\<close>\<close>

text \<open>
  \<open>packageFileFromPath\<close> calls \<open>path.dirname\<close>, \<open>path.relative\<close> and
  \<open>path.join\<close>. They are modelled as Node documents and implements them for POSIX
  hosts (\<open>path.posix\<close>); \<open>cwd\<close> is \<open>process.cwd()\<close>, an absolute path, which
  \<open>path.resolve\<close> and \<open>path.relative\<close> read.
\<close>

text \<open>\<open>s.split("/")\<close> and \<open>parts.join("/")\<close>.\<close>

fun split_slash :: "string \<Rightarrow> string list" where
  "split_slash [] = [[]]"
| "split_slash (c # cs) =
     (if c = CHR ''/'' then [] # split_slash cs
      else (case split_slash cs of [] \<Rightarrow> [[c]] | s # ss \<Rightarrow> (c # s) # ss))"

fun join_slash :: "string list \<Rightarrow> string" where
  "join_slash [] = []"
| "join_slash [s] = s"
| "join_slash (s # ss) = s @ ''/'' @ join_slash ss"

text \<open>
  The normalisation of a list of path segments: empty segments and \<open>.\<close> are dropped,
  \<open>..\<close> removes the segment before it, and is kept only where nothing is left to
  remove and the path may climb above its start (\<open>allowAboveRoot\<close>). The segments
  kept so far are in \<open>stack\<close>, the last one first.
\<close>

fun normalizeArray :: "bool \<Rightarrow> string list \<Rightarrow> string list \<Rightarrow> string list" where
  "normalizeArray allowAboveRoot stack [] = rev stack"
| "normalizeArray allowAboveRoot stack (s # ss) =
     (if s = [] \<or> s = ''.'' then normalizeArray allowAboveRoot stack ss
      else if s = ''..'' then
        (case stack of
           [] \<Rightarrow> normalizeArray allowAboveRoot (if allowAboveRoot then [''..''] else []) ss
         | t # ts \<Rightarrow>
             if t \<noteq> ''..'' then normalizeArray allowAboveRoot ts ss
             else normalizeArray allowAboveRoot (if allowAboveRoot then ''..'' # stack else stack) ss)
      else normalizeArray allowAboveRoot (s # stack) ss)"

definition posix_isAbsolute :: "string \<Rightarrow> bool" where
  "posix_isAbsolute p = (case p of [] \<Rightarrow> False | c # _ \<Rightarrow> c = CHR ''/'')"

text \<open>
  \<open>path.resolve(p)\<close>, as the list of the segments of the absolute path it returns
  (the path itself is \<open>/\<close> followed by the segments joined by \<open>/\<close>).
\<close>

definition posix_resolve_parts :: "string \<Rightarrow> string \<Rightarrow> string list" where
  "posix_resolve_parts cwd p =
     normalizeArray False [] (split_slash (if posix_isAbsolute p then p else cwd @ ''/'' @ p))"

definition posix_resolve :: "string \<Rightarrow> string \<Rightarrow> string" where
  "posix_resolve cwd p = ''/'' @ join_slash (posix_resolve_parts cwd p)"

fun samePartsLength :: "string list \<Rightarrow> string list \<Rightarrow> nat" where
  "samePartsLength (x # xs) (y # ys) = (if x = y then Suc (samePartsLength xs ys) else 0)"
| "samePartsLength _ _ = 0"

text \<open>
  \<open>path.relative(from, to)\<close>: both paths are resolved, their common leading
  segments are dropped, and the result climbs out of what is left of \<open>from\<close> before
  it descends into what is left of \<open>to\<close>.
\<close>

definition posix_relative :: "string \<Rightarrow> string \<Rightarrow> string \<Rightarrow> string" where
  "posix_relative cwd from to =
     (if from = to then []
      else
        (let fromParts = posix_resolve_parts cwd from;
             toParts = posix_resolve_parts cwd to;
             n = samePartsLength fromParts toParts
         in join_slash (replicate (length fromParts - n) ''..'' @ drop n toParts)))"

text \<open>
  \<open>path.dirname(p)\<close>: Node scans \<open>p\<close> from its end down to index 1, skips the
  trailing slashes and the last segment, and cuts \<open>p\<close> at the slash before that
  segment (\<open>end\<close> in the source, \<open>endIdx\<close> here); with no such slash the result is \<open>/\<close> or \<open>.\<close>.
\<close>

definition posix_dirname :: "string \<Rightarrow> string" where
  "posix_dirname p =
     (case p of
        [] \<Rightarrow> ''.''
      | c # cs \<Rightarrow>
          (let hasRoot = (c = CHR ''/'');
               afterSlashes = dropWhile (\<lambda>x. x = CHR ''/'') (rev cs);
               endIdx = length (dropWhile (\<lambda>x. x \<noteq> CHR ''/'') afterSlashes)
           in if endIdx = 0 then (if hasRoot then ''/'' else ''.'')
              else if hasRoot \<and> endIdx = 1 then ''//''
              else take endIdx p))"

definition posix_normalize :: "string \<Rightarrow> string" where
  "posix_normalize p =
     (if p = [] then ''.''
      else
        (let isAbsolute = posix_isAbsolute p;
             trailingSeparator = (last p = CHR ''/'');
             body = join_slash (normalizeArray (\<not> isAbsolute) [] (split_slash p))
         in if body = [] then (if isAbsolute then ''/'' else if trailingSeparator then ''./'' else ''.'')
            else (if isAbsolute then ''/'' else []) @ body @
                 (if trailingSeparator then ''/'' else [])))"

definition posix_join :: "string list \<Rightarrow> string" where
  "posix_join args =
     (let joined = join_slash (filter (\<lambda>a. a \<noteq> []) args)
      in if joined = [] then ''.'' else posix_normalize joined)"

text \<open>
  The package \<open>slash\<close>, in the releases \<open>require("slash")\<close> loads: a path that
  starts with \<open>\\?\\<close> (an extended-length path) or holds a character above
  \<open>\x80\<close> is returned as it is, any other path has every backslash replaced by a
  slash.
\<close>

definition backslash :: char where
  "backslash = CHR 0x5C"

definition slash :: "string \<Rightarrow> string" where
  "slash str =
     (let isExtendedLengthPath = prefix [backslash, backslash, CHR ''?'', backslash] str;
          hasNonAscii = list_ex (\<lambda>c. (of_char c :: nat) > 0x80) str
      in if isExtendedLengthPath \<or> hasNonAscii then str
         else map (\<lambda>c. if c = backslash then CHR ''/'' else c) str)"

subsection \<open>The names \<open>yazl\<close> accepts\<close>

text \<open>
  \<open>zipFile.addFile(realPath, metadataPath)\<close> of \<open>yazl\<close> validates the name of the
  entry before it stores it (\<open>validateMetadataPath\<close>, for a file): the empty name is
  refused; backslashes are replaced by slashes; then a name that starts with a drive
  letter and a colon or with a slash, a name with a \<open>..\<close> segment and a name that ends
  in a slash are refused. The constructor of the entry refuses a name longer than
  \<open>0xffff\<close> bytes. The name stored is the name with the backslashes replaced.
\<close>

definition is_letter :: "char \<Rightarrow> bool" where
  "is_letter c =
     (let n = (of_char c :: nat) in (65 \<le> n \<and> n \<le> 90) \<or> (97 \<le> n \<and> n \<le> 122))"

definition validateMetadataPath :: "string \<Rightarrow> error + string" where
  "validateMetadataPath metadataPath =
     (if metadataPath = [] then Inl (HostError ''empty metadataPath'')
      else
        (let replaced = map (\<lambda>c. if c = backslash then CHR ''/'' else c) metadataPath
         in if (case replaced of c # d # _ \<Rightarrow> is_letter c \<and> d = CHR '':'' | _ \<Rightarrow> False) \<or>
               prefix ''/'' replaced
            then Inl (HostError ''absolute path'')
            else if ''..'' \<in> set (split_slash replaced)
            then Inl (HostError ''invalid relative path'')
            else if last replaced = CHR ''/''
            then Inl (HostError ''file path cannot end with /'')
            else Inr replaced))"

text \<open>The number of bytes of the UTF-8 encoding of a string: one byte for a character
  below \<open>\x80\<close>, two for the others.\<close>

definition utf8_length :: "string \<Rightarrow> nat" where
  "utf8_length s = sum_list (map (\<lambda>c. if (of_char c :: nat) < 0x80 then 1 else 2) s)"

definition yazl_entry_name :: "string \<Rightarrow> error + string" where
  "yazl_entry_name metadataPath =
     (case validateMetadataPath metadataPath of
        Inl e \<Rightarrow> Inl e
      | Inr name \<Rightarrow>
          if utf8_length name > 0xffff then Inl (HostError ''utf8 file name too long'')
          else Inr name)"

subsection \<open>The host: file system, scanner, streams\<close>

text \<open>
  What the file system holds under a path: \<open>lstat\<close> reports the node itself, and
  does not follow a symbolic link to its target.
\<close>

type_synonym bytes = "8 word list"

datatype node = RegularFile bytes | DirNode | SymbolicLink string | SpecialNode

datatype Stats = StatsFile | StatsDirectory | StatsSymbolicLink | StatsOther

definition lstatSync :: "(string \<rightharpoonup> node) \<Rightarrow> string \<Rightarrow> error + Stats" where
  "lstatSync nodes p =
     (case nodes p of
        None \<Rightarrow> Inl (HostError ''ENOENT'')
      | Some (RegularFile content) \<Rightarrow> Inr StatsFile
      | Some DirNode \<Rightarrow> Inr StatsDirectory
      | Some (SymbolicLink target) \<Rightarrow> Inr StatsSymbolicLink
      | Some SpecialNode \<Rightarrow> Inr StatsOther)"

definition isDirectory :: "Stats \<Rightarrow> bool" where
  "isDirectory st = (st = StatsDirectory)"

text \<open>
  The working directory of the process is read at three moments of one call: by
  \<open>path.relative\<close> inside the callback of the scan, by the file system when the write
  stream opens the relative name \<open>fileName\<close>, and by \<open>process.cwd()\<close> in the
  \<open>close\<close> listener. Other code of the process may change it in between.
\<close>

datatype moment = InCallback | AtOpen | AtClose

text \<open>
  Everything \<open>packageFileFromPath\<close> reads from outside:
  \<^item> \<open>fs_nodes\<close>: the file system when \<open>fs.lstatSync\<close> runs;
  \<^item> \<open>readdirr\<close>: what \<open>recursiveFs.readdirr\<close> hands to its callback, an error or
    the directories and the files it found;
  \<^item> \<open>Math_random\<close>, \<open>process_cwd\<close>: the ambient random source and the working
    directory at each moment;
  \<^item> \<open>fs_read\<close>: what reading a source file gives when the archive is streamed,
    later than the scan;
  \<^item> \<open>fs_open_error\<close>: the error of opening the destination, by its absolute path,
    if any;
  \<^item> \<open>fs_write_error\<close>: the error of the \<open>k\<close>-th write to the destination, if any
    (one write for each member, and a last one that finalises the archive);
  \<^item> \<open>close_after_error\<close>: whether the write stream emits \<open>close\<close> after an
    \<open>error\<close>, which depends on the release of Node.
\<close>

record host =
  fs_nodes :: "string \<rightharpoonup> node"
  readdirr :: "string \<Rightarrow> error + string list \<times> string list"
  Math_random :: "nat \<Rightarrow> real"
  process_cwd :: "moment \<Rightarrow> string"
  fs_read :: "string \<Rightarrow> error + bytes"
  fs_open_error :: "string \<Rightarrow> error option"
  fs_write_error :: "string \<Rightarrow> nat \<Rightarrow> error option"
  close_after_error :: bool

subsection \<open>Promises, emitters and listeners\<close>

record PackageFile =
  isTemporary :: bool
  path :: string

datatype 'a promise = Pending | Resolved 'a | Rejected error

text \<open>A promise settles once: \<open>resolve\<close> and \<open>reject\<close> do nothing to a settled one.\<close>

definition resolve :: "'a promise \<Rightarrow> 'a \<Rightarrow> 'a promise" where
  "resolve p v = (case p of Pending \<Rightarrow> Resolved v | _ \<Rightarrow> p)"

definition reject :: "'a promise \<Rightarrow> error \<Rightarrow> 'a promise" where
  "reject p e = (case p of Pending \<Rightarrow> Rejected e | _ \<Rightarrow> p)"

text \<open>
  The three event emitters of the directory branch: the \<open>yazl.ZipFile\<close>, its
  \<open>outputStream\<close>, and the \<open>fs.WriteStream\<close> of the destination.
  \<open>readable.pipe(destination)\<close> returns the destination, so the listeners that
  \<open>packageFileFromPath\<close> chains after \<open>pipe\<close> are listeners of the write stream.
\<close>

datatype emitter = ZipFile | OutputStream | WriteStream

datatype event = ErrorEvent error | CloseEvent

datatype event_name = OnError | OnClose

definition name_of :: "event \<Rightarrow> event_name" where
  "name_of ev = (case ev of ErrorEvent e \<Rightarrow> OnError | CloseEvent \<Rightarrow> OnClose)"

definition pipe :: "emitter \<Rightarrow> emitter \<Rightarrow> emitter" where
  "pipe source destination = destination"

text \<open>
  The two listeners that \<open>packageFileFromPath\<close> registers:
  \<open>(error) => reject(error)\<close>, and the \<open>close\<close> listener, which resolves with
  \<open>path.join(process.cwd(), fileName)\<close>; it closes over \<open>fileName\<close>.
\<close>

datatype listener = RejectListener | ResolveListener string

text \<open>
  A file written on the disk: the members of the archive written to it so far, whether
  the archive was finalised, and whether the file was closed.
\<close>

datatype written = Written (members: "(string \<times> bytes) list") (finished: bool) (closed: bool)

text \<open>
  The state of one call: the promise it returned, the listeners it registered, the
  paths it scanned and opened for writing, the entries it gave to the archive (the
  source and the name \<open>yazl\<close> stored), whether it finalised the archive, the
  exceptions that nothing caught, and the files written on the disk, by absolute path.
\<close>

record bundling =
  promise :: "PackageFile promise"
  listeners :: "(emitter \<times> event_name \<times> listener) list"
  scanned :: "string list"
  created :: "string list"
  entries :: "(string \<times> string) list"
  ended :: bool
  uncaught :: "error list"
  disk :: "string \<rightharpoonup> written"

definition start :: bundling where
  "start = \<lparr>promise = Pending, listeners = [], scanned = [], created = [], entries = [],
            ended = False, uncaught = [], disk = Map.empty\<rparr>"

definition on :: "emitter \<Rightarrow> event_name \<Rightarrow> listener \<Rightarrow> bundling \<Rightarrow> bundling" where
  "on em nm l s = s\<lparr>listeners := listeners s @ [(em, nm, l)]\<rparr>"

definition run_listener :: "host \<Rightarrow> event \<Rightarrow> bundling \<Rightarrow> listener \<Rightarrow> bundling" where
  "run_listener h ev s l =
     (case l of
        RejectListener \<Rightarrow>
          (case ev of ErrorEvent e \<Rightarrow> s\<lparr>promise := reject (promise s) e\<rparr> | CloseEvent \<Rightarrow> s)
      | ResolveListener fileName \<Rightarrow>
          s\<lparr>promise := resolve (promise s)
                \<lparr>isTemporary = True, path = posix_join [process_cwd h AtClose, fileName]\<rparr>\<rparr>)"

text \<open>
  \<open>emitter.emit\<close>: the listeners registered for the event run in the order of their
  registration; an \<open>error\<close> event that has no listener is thrown, and nothing in
  \<open>packageFileFromPath\<close> catches it.
\<close>

definition emit :: "host \<Rightarrow> bundling \<Rightarrow> emitter \<times> event \<Rightarrow> bundling" where
  "emit h s ee =
     (case ee of (em, ev) \<Rightarrow>
        (let ls = map (\<lambda>(em', nm, l). l)
                    (filter (\<lambda>(em', nm, l). em' = em \<and> nm = name_of ev) (listeners s))
         in if ls = [] then
              (case ev of ErrorEvent e \<Rightarrow> s\<lparr>uncaught := uncaught s @ [e]\<rparr> | CloseEvent \<Rightarrow> s)
            else foldl (run_listener h ev) s ls))"

definition emit_all :: "host \<Rightarrow> bundling \<Rightarrow> (emitter \<times> event) list \<Rightarrow> bundling" where
  "emit_all h s evs = foldl (emit h) s evs"

subsection \<open>\<open>packageFileFromPath\<close>\<close>

text \<open>
  The name of an archive entry, as the loop computes it:
  \<open>slash(path.relative(path.dirname(directoryPath), file))\<close>.
\<close>

definition entryName :: "string \<Rightarrow> string \<Rightarrow> string \<Rightarrow> string" where
  "entryName cwd directoryPath file =
     (let baseDirectoryPath = posix_dirname directoryPath;
          relativePath = posix_relative cwd baseDirectoryPath file
      in slash relativePath)"

text \<open>
  \<open>zipFile.addFile(file, relativePath)\<close> appends an entry to the archive, under the
  name \<open>yazl\<close> stores, or throws. The loop
  \<open>for (var i = 0; i < files.length; ++i)\<close> is the recursion on \<open>i\<close>; an exception of
  \<open>addFile\<close> leaves the loop and the callback, with the entries added before it in
  place, and is caught nowhere.
\<close>

definition addFile :: "bundling \<Rightarrow> string \<Rightarrow> string \<Rightarrow> error + bundling" where
  "addFile s realPath metadataPath =
     (case yazl_entry_name metadataPath of
        Inl e \<Rightarrow> Inl e
      | Inr name \<Rightarrow> Inr (s\<lparr>entries := entries s @ [(realPath, name)]\<rparr>))"

function addFiles :: "host \<Rightarrow> string \<Rightarrow> string list \<Rightarrow> nat \<Rightarrow> bundling \<Rightarrow> error option \<times> bundling" where
  "addFiles h directoryPath files i s =
     (if i < length files then
        (let file = files ! i;
             relativePath = entryName (process_cwd h InCallback) directoryPath file
         in case addFile s file relativePath of
              Inl e \<Rightarrow> (Some e, s)
            | Inr s' \<Rightarrow> addFiles h directoryPath files (i + 1) s')
      else (None, s))"
  by pat_completeness auto
termination
  by (relation "measure (\<lambda>(h, directoryPath, files, i, s). length files - i)") auto

declare addFiles.simps [simp del]

text \<open>
  The callback that \<open>readdirr\<close> calls, from the creation of the archive on. The state
  it returns is the state when the callback has finished: with the listeners in
  place, the entries added and the archive finalised, or, where \<open>addFile\<close> threw,
  with the exception uncaught and \<open>zipFile.end()\<close> never reached.
\<close>

definition archive_files :: "host \<Rightarrow> string \<Rightarrow> string list \<Rightarrow> bundling \<Rightarrow> bundling" where
  "archive_files h directoryPath files s0 =
     (let fileName = generateRandomFilename (Math_random h) 15 @ ''.zip'';
          s1 = s0\<lparr>created := created s0 @ [fileName]\<rparr>;
          piped = pipe OutputStream WriteStream;
          s2 = on piped OnError RejectListener s1;
          s3 = on piped OnClose (ResolveListener fileName) s2
      in case addFiles h directoryPath files 0 s3 of
           (Some e, s4) \<Rightarrow> s4\<lparr>uncaught := uncaught s4 @ [e]\<rparr>
         | (None, s4) \<Rightarrow> s4\<lparr>ended := True\<rparr>)"

text \<open>
  \<open>packageFileFromPath(filePath)\<close>, up to the moment the callback of \<open>readdirr\<close>
  has run: \<open>Inl\<close> when \<open>fs.lstatSync\<close> throws (no promise is returned then),
  otherwise the state of the call.
\<close>

definition packageFileFromPath :: "host \<Rightarrow> string \<Rightarrow> error + bundling" where
  "packageFileFromPath h filePath =
     (case lstatSync (fs_nodes h) filePath of
        Inl e \<Rightarrow> Inl e
      | Inr st \<Rightarrow>
          if isDirectory st then
            (let directoryPath = filePath;
                 s = start\<lparr>scanned := [directoryPath]\<rparr>
             in case readdirr h directoryPath of
                  Inl error \<Rightarrow> Inr (s\<lparr>promise := reject (promise s) error\<rparr>)
                | Inr (directories, files) \<Rightarrow> Inr (archive_files h directoryPath files s))
          else
            Inr (start\<lparr>promise := resolve (promise start)
                                   \<lparr>isTemporary = False, path = filePath\<rparr>\<rparr>))"

subsection \<open>The streaming of the archive\<close>

text \<open>
  What \<open>yazl\<close> and the streams of Node do once the callback has returned, written
  out step by step as those libraries document it; none of it is code of
  \<open>packageFileFromPath\<close>, which only listens.

  \<^item> \<open>addFile\<close> has asked for the status of every source: each source that cannot be
    read is reported as an \<open>error\<close> event of the \<open>ZipFile\<close>.
  \<^item> The write stream opens \<open>fileName\<close>, a relative name, against the working
    directory of that moment. A failure is an \<open>error\<close> event of the write stream;
    otherwise the file exists from then on, empty.
  \<^item> The entries are pumped in their order, one member written for each; the pump
    waits forever at an entry whose source cannot be read. A failed write is an
    \<open>error\<close> event of the write stream, and the file is closed as it is.
  \<^item> After the last entry, and only when \<open>zipFile.end()\<close> was called, the archive is
    finalised by a last write, the output stream ends, the write stream closes the
    file and emits \<open>close\<close>.
  \<^item> After an \<open>error\<close> the write stream emits \<open>close\<close> as well, or not, as the host
    says.
\<close>

definition read_errors :: "host \<Rightarrow> (string \<times> string) list \<Rightarrow> error list" where
  "read_errors h es =
     concat (map (\<lambda>(realPath, name).
                    case fs_read h realPath of Inl e \<Rightarrow> [e] | Inr content \<Rightarrow> []) es)"

definition close_at :: "string \<Rightarrow> (string \<rightharpoonup> written) \<Rightarrow> (string \<rightharpoonup> written)" where
  "close_at dest d =
     (case d dest of
        None \<Rightarrow> d
      | Some w \<Rightarrow> d(dest \<mapsto> Written (members w) (finished w) True))"

definition finish_at :: "string \<Rightarrow> (string \<rightharpoonup> written) \<Rightarrow> (string \<rightharpoonup> written)" where
  "finish_at dest d =
     (case d dest of
        None \<Rightarrow> d
      | Some w \<Rightarrow> d(dest \<mapsto> Written (members w) True True))"

definition append_at ::
  "string \<Rightarrow> string \<times> bytes \<Rightarrow> (string \<rightharpoonup> written) \<Rightarrow> (string \<rightharpoonup> written)" where
  "append_at dest member d =
     (case d dest of
        None \<Rightarrow> d
      | Some w \<Rightarrow> d(dest \<mapsto> Written (members w @ [member]) (finished w) (closed w)))"

definition write_failed :: "host \<Rightarrow> string \<Rightarrow> error \<Rightarrow> bundling \<Rightarrow> bundling" where
  "write_failed h dest e s =
     (let s1 = emit h (s\<lparr>disk := close_at dest (disk s)\<rparr>) (WriteStream, ErrorEvent e)
      in if close_after_error h then emit h s1 (WriteStream, CloseEvent) else s1)"

fun pump :: "host \<Rightarrow> string \<Rightarrow> (string \<times> string) list \<Rightarrow> nat \<Rightarrow> bundling \<Rightarrow> bundling" where
  "pump h dest [] k s =
     (if ended s then
        (case fs_write_error h dest k of
           Some e \<Rightarrow> write_failed h dest e s
         | None \<Rightarrow> emit h (s\<lparr>disk := finish_at dest (disk s)\<rparr>) (WriteStream, CloseEvent))
      else s)"
| "pump h dest ((realPath, name) # es) k s =
     (case fs_read h realPath of
        Inl e \<Rightarrow> s
      | Inr content \<Rightarrow>
          (case fs_write_error h dest k of
             Some e \<Rightarrow> write_failed h dest e s
           | None \<Rightarrow> pump h dest es (k + 1) (s\<lparr>disk := append_at dest (name, content) (disk s)\<rparr>)))"

definition stream :: "host \<Rightarrow> bundling \<Rightarrow> bundling" where
  "stream h s =
     (case created s of
        [] \<Rightarrow> s
      | fileName # others \<Rightarrow>
          (let dest = posix_resolve (process_cwd h AtOpen) fileName;
               s1 = emit_all h s (map (\<lambda>e. (ZipFile, ErrorEvent e)) (read_errors h (entries s)))
           in case fs_open_error h dest of
                Some e \<Rightarrow> write_failed h dest e s1
              | None \<Rightarrow>
                  pump h dest (entries s) 0
                    (s1\<lparr>disk := (disk s1)(dest \<mapsto> Written [] False False)\<rparr>)))"

text \<open>The members that the entries give when every source can be read: the stored name
  and the bytes of the source, in the order of the entries.\<close>

definition members_of :: "host \<Rightarrow> (string \<times> string) list \<Rightarrow> (string \<times> bytes) list" where
  "members_of h es =
     concat (map (\<lambda>(realPath, name).
                    case fs_read h realPath of Inl e \<Rightarrow> [] | Inr content \<Rightarrow> [(name, content)]) es)"

text \<open>The whole operation: the call, then the streaming.\<close>

definition bundle_run :: "host \<Rightarrow> string \<Rightarrow> error + bundling" where
  "bundle_run h filePath =
     (case packageFileFromPath h filePath of
        Inl e \<Rightarrow> Inl e
      | Inr s \<Rightarrow> Inr (stream h s))"

subsection \<open>Path segments\<close>

text \<open>
  A proper segment of a path: not empty, without a slash, and neither \<open>.\<close> nor
  \<open>..\<close>.
\<close>

definition segment :: "string \<Rightarrow> bool" where
  "segment s = (s \<noteq> [] \<and> CHR ''/'' \<notin> set s \<and> s \<noteq> ''.'' \<and> s \<noteq> ''..'')"


subsection \<open>The pattern of a temporary name\<close>

text \<open>
  The pattern \<open>^[A-Za-z0-9]{15}\.zip$\<close> of the specification, as a predicate on
  strings; it is stated apart from \<open>generateRandomFilename\<close> and compared with it
  below.
\<close>

definition is_alphanumeric :: "char \<Rightarrow> bool" where
  "is_alphanumeric c =
     (let n = (of_char c :: nat)
      in (65 \<le> n \<and> n \<le> 90) \<or> (97 \<le> n \<and> n \<le> 122) \<or> (48 \<le> n \<and> n \<le> 57))"

definition matches_temp_pattern :: "string \<Rightarrow> bool" where
  "matches_temp_pattern s =
     (length s = 19 \<and> list_all is_alphanumeric (take 15 s) \<and> drop 15 s = ''.zip'')"

subsection \<open>The listeners of the directory branch\<close>

definition wired :: "string \<Rightarrow> bundling \<Rightarrow> bool" where
  "wired fileName s =
     (listeners s = [(WriteStream, OnError, RejectListener),
                     (WriteStream, OnClose, ResolveListener fileName)])"

subsection \<open>Example hosts\<close>

text \<open>
  A small host on which the definitions can be run: a directory \<open>/p/root\<close> with the
  files \<open>a.txt\<close> and \<open>sub/b.txt\<close>, an empty directory, a symbolic link to
  \<open>/p/root\<close>, a regular file, and a directory whose scan fails. The first draw of
  its random source is a double whose product with 62 is rounded up to 16. In the
  second host \<open>sub/b.txt\<close> has been deleted after the scan: the scanner still lists
  it, and reading it fails. In the third host the scanner finds three files, the second
  of which has a name that ends in a backslash. In the fourth host the working
  directory has been changed between the opening of the destination and its
  \<open>close\<close> event.
\<close>

definition example_host :: host where
  "example_host =
     \<lparr>fs_nodes = [''/p/root'' \<mapsto> DirNode, ''/p/empty'' \<mapsto> DirNode,
                  ''/p/link'' \<mapsto> SymbolicLink ''/p/root'',
                  ''/p/f.bin'' \<mapsto> RegularFile [1, 2], ''/p/gone'' \<mapsto> DirNode],
      readdirr = (\<lambda>d. if d = ''/p/root''
                       then Inr ([''/p/root'', ''/p/root/sub''],
                                 [''/p/root/a.txt'', ''/p/root/sub/b.txt''])
                       else if d = ''/p/empty'' then Inr ([''/p/empty''], [])
                       else Inl (HostError ''ENOENT: scandir'')),
      Math_random = (\<lambda>k. if k = 0 then 1162219258676257 / 2 ^ 52 else 1 / 2),
      process_cwd = (\<lambda>m. ''/home/u/proj''),
      fs_read = (\<lambda>f. if f = ''/p/root/a.txt'' then Inr [1]
                      else if f = ''/p/root/sub/b.txt'' then Inr [2, 3]
                      else Inl (HostError ''ENOENT: open'')),
      fs_open_error = (\<lambda>f. None),
      fs_write_error = (\<lambda>f k. None),
      close_after_error = True\<rparr>"

definition example_host_deleted :: host where
  "example_host_deleted =
     example_host\<lparr>fs_read := (\<lambda>f. if f = ''/p/root/a.txt'' then Inr [1]
                                    else Inl (HostError ''ENOENT: open''))\<rparr>"


definition example_host_moved :: host where
  "example_host_moved =
     example_host\<lparr>process_cwd := (\<lambda>m. if m = AtClose then ''/tmp'' else ''/home/u/proj'')\<rparr>"

section \<open>Properties\<close>

subsection \<open>Splitting, joining and normalising paths\<close>

lemma split_slash_not_Nil: "split_slash s \<noteq> []"
  by (induction s) (auto split: list.splits)

lemma split_slash_append:
  "split_slash (a @ CHR ''/'' # b) = split_slash a @ split_slash b"
proof (induction a)
  case Nil
  then show ?case by simp
next
  case (Cons c a)
  then show ?case
    using split_slash_not_Nil [of a]
    by (cases "split_slash a") (auto split: list.splits)
qed

lemma split_slash_segment: "CHR ''/'' \<notin> set s \<Longrightarrow> split_slash s = [s]"
  by (induction s) auto


lemma normalizeArray_segments:
  "\<forall>s \<in> set xs. segment s \<Longrightarrow> normalizeArray allow stack xs = rev stack @ xs"
  by (induction xs arbitrary: stack) (auto simp add: segment_def)

lemma normalizeArray_append:
  "normalizeArray allow stack (xs @ ys) =
     normalizeArray allow (rev (normalizeArray allow stack xs)) ys"
  by (induction xs arbitrary: stack) (auto split: list.splits)


lemma join_slash_last:
  "xs \<noteq> [] \<Longrightarrow> last xs \<noteq> [] \<Longrightarrow> join_slash xs \<noteq> [] \<and> last (join_slash xs) = last (last xs)"
  by (induction xs rule: join_slash.induct) auto


subsection \<open>\<open>path.dirname\<close> and \<open>path.resolve\<close>\<close>









subsection \<open>\<open>path.relative\<close>, \<open>slash\<close> and \<open>path.join\<close>\<close>






lemma posix_join_resolve:
  assumes "posix_isAbsolute cwd" and "segment fileName"
  shows "posix_join [cwd, fileName] = posix_resolve cwd fileName"
proof -
  from assms(2) have fn: "fileName \<noteq> []" "CHR ''/'' \<notin> set fileName"
    and seg: "\<forall>s \<in> set [fileName]. segment s"
    by (simp_all add: segment_def)
  from assms(1) obtain cs where cwd: "cwd = CHR ''/'' # cs"
    by (cases cwd) (auto simp add: posix_isAbsolute_def)
  define parts where "parts = normalizeArray False [] (split_slash cwd)"
  have sp: "split_slash (cwd @ ''/'' @ fileName) = split_slash cwd @ [fileName]"
    using fn by (simp add: split_slash_append split_slash_segment)
  have na: "normalizeArray False [] (split_slash (cwd @ ''/'' @ fileName)) = parts @ [fileName]"
    unfolding sp normalizeArray_append parts_def [symmetric]
    using normalizeArray_segments [OF seg, of False "rev parts"] by simp
  from fn join_slash_last [of "parts @ [fileName]"]
  have body: "join_slash (parts @ [fileName]) \<noteq> []" by simp
  from fn have notabs: "\<not> posix_isAbsolute fileName"
    by (cases fileName) (auto simp add: posix_isAbsolute_def)
  from fn have last: "last (cwd @ ''/'' @ fileName) \<noteq> CHR ''/''"
    by (cases fileName rule: rev_cases) auto
  have abs: "posix_isAbsolute (cwd @ ''/'' @ fileName) = True"
    by (simp add: cwd posix_isAbsolute_def)
  have "posix_normalize (cwd @ ''/'' @ fileName) = ''/'' @ join_slash (parts @ [fileName])"
    unfolding posix_normalize_def Let_def abs not_True_eq_False na using body last by simp
  moreover from fn cwd have "posix_join [cwd, fileName] = posix_normalize (cwd @ ''/'' @ fileName)"
    by (simp add: posix_join_def Let_def)
  moreover from notabs have "posix_resolve cwd fileName = ''/'' @ join_slash (parts @ [fileName])"
    unfolding posix_resolve_def posix_resolve_parts_def using na by simp
  ultimately show ?thesis by simp
qed

subsection \<open>\<open>appNameParam\<close> replaces the first slash only\<close>

lemma js_replace_first:
  "c \<notin> set a \<Longrightarrow> js_replace [c] rep (a @ c # b) = a @ rep @ b"
  by (induction a) auto

lemma js_replace_absent:
  "c \<notin> set s \<Longrightarrow> js_replace [c] rep s = s"
  by (induction s) auto

text \<open>
  Claim C10. \<open>appNameParam\<close> replaces only the first \<open>/\<close> of the app name by
  \<open>~~\<close>: an app name is \<open>a @ ''/'' @ b\<close> with no slash in \<open>a\<close> in exactly one way,
  and the result is \<open>a @ ''~~'' @ b\<close>, so everything after the first slash, every
  further slash of \<open>b\<close> included, is left as it was; a name without a slash is
  returned as it is. (The result is what the URL templates then hand to
  \<open>encodeURIComponent\<close>.)
\<close>

theorem appNameParam_first_slash_only:
  "CHR ''/'' \<notin> set a \<Longrightarrow>
     appNameParam (a @ ''/'' @ b) = a @ ''~~'' @ b \<and> appNameParam a = a"
  by (simp add: appNameParam_def js_replace_first js_replace_absent)

theorem appNameParam_first_slash_only_witness:
  "appNameParam ''org/my/app/name'' = ''org~~my/app/name'' \<and> appNameParam ''org'' = ''org''"
  using appNameParam_first_slash_only [of "''org''" "''my/app/name''"] by simp

subsection \<open>The constructor\<close>

text \<open>
  Claim C9. With an absent or empty access key the constructor throws
  \<open>CodePushUnauthorizedError\<close> and builds nothing (neither collaborator's
  constructor decides the result); with a non-empty key, once the
  collaborators are constructed, it returns an instance whose \<open>accessKey\<close> getter
  gives back the key that was passed in.
\<close>

theorem new_AccountManager_accessKey:
  "(falsy key \<longrightarrow>
      new_AccountManager new_rm new_ad key hs url px =
        Inl (CodePushUnauthorizedError ''A token must be specified.'')) \<and>
   (\<forall>k rm ad. key = Some k \<and> k \<noteq> [] \<and> new_rm k hs url px = Inr rm \<and> new_ad rm = Inr ad \<longrightarrow>
      (\<exists>this. new_AccountManager new_rm new_ad key hs url px = Inr this \<and>
              accessKey this = k \<and> priv_requestManager this = rm \<and> priv_adapter this = ad))"
  by (auto simp: new_AccountManager_def falsy_def accessKey_def split: option.splits)

theorem new_AccountManager_accessKey_witness:
  "new_AccountManager (\<lambda>k h u p. Inr (k, h, u, p)) (\<lambda>rm. Inr rm) None None None None =
     Inl (CodePushUnauthorizedError ''A token must be specified.'') \<and>
   new_AccountManager (\<lambda>k h u p. Inr (k, h, u, p)) (\<lambda>rm. Inr rm) (Some []) None None None =
     Inl (CodePushUnauthorizedError ''A token must be specified.'') \<and>
   (\<exists>this. new_AccountManager (\<lambda>k h u p. Inr (k, h, u, p)) (\<lambda>rm. Inr rm)
              (Some ''key-0'') None None None = Inr this \<and>
           accessKey this = ''key-0'')"
  using new_AccountManager_accessKey
          [of None "\<lambda>k h u p. Inr (k, h, u, p)" "\<lambda>rm. Inr rm" None None None]
        new_AccountManager_accessKey
          [of "Some []" "\<lambda>k h u p. Inr (k, h, u, p)" "\<lambda>rm. Inr rm" None None None]
        new_AccountManager_accessKey
          [of "Some ''key-0''" "\<lambda>k h u p. Inr (k, h, u, p)" "\<lambda>rm. Inr rm" None None None]
  by (auto simp add: falsy_def)

subsection \<open>A settled promise stays as it is\<close>

lemma reject_settled: "p \<noteq> Pending \<Longrightarrow> reject p e = p"
  by (cases p) (simp_all add: reject_def)

lemma resolve_settled: "p \<noteq> Pending \<Longrightarrow> resolve p v = p"
  by (cases p) (simp_all add: resolve_def)

lemma run_listener_settled:
  "promise s \<noteq> Pending \<Longrightarrow> promise (run_listener h ev s l) = promise s"
  by (cases l; cases ev) (simp_all add: run_listener_def reject_settled resolve_settled)

lemma run_listeners_settled:
  "promise s \<noteq> Pending \<Longrightarrow> promise (foldl (run_listener h ev) s ls) = promise s"
  by (induction ls arbitrary: s) (simp_all add: run_listener_settled)

lemma emit_settled:
  "promise s \<noteq> Pending \<Longrightarrow> promise (emit h s ee) = promise s"
  by (cases ee; cases "snd ee") (simp_all add: emit_def Let_def run_listeners_settled)

lemma emit_all_settled:
  "promise s \<noteq> Pending \<Longrightarrow> promise (emit_all h s evs) = promise s"
  unfolding emit_all_def
  by (induction evs arbitrary: s) (simp_all add: emit_settled)


subsection \<open>Events change the promise and the uncaught exceptions only\<close>

lemma run_listener_fields:
  "entries (run_listener h ev s l) = entries s \<and> ended (run_listener h ev s l) = ended s \<and>
   created (run_listener h ev s l) = created s \<and> scanned (run_listener h ev s l) = scanned s \<and>
   listeners (run_listener h ev s l) = listeners s \<and> disk (run_listener h ev s l) = disk s"
  by (cases l; cases ev) (simp_all add: run_listener_def)

lemma run_listeners_fields:
  "entries (foldl (run_listener h ev) s ls) = entries s \<and>
   ended (foldl (run_listener h ev) s ls) = ended s \<and>
   created (foldl (run_listener h ev) s ls) = created s \<and>
   scanned (foldl (run_listener h ev) s ls) = scanned s \<and>
   listeners (foldl (run_listener h ev) s ls) = listeners s \<and>
   disk (foldl (run_listener h ev) s ls) = disk s"
  by (induction ls arbitrary: s) (simp_all add: run_listener_fields)

lemma emit_fields:
  "entries (emit h s ee) = entries s \<and> ended (emit h s ee) = ended s \<and>
   created (emit h s ee) = created s \<and> scanned (emit h s ee) = scanned s \<and>
   listeners (emit h s ee) = listeners s \<and> disk (emit h s ee) = disk s"
  by (cases ee; cases "snd ee") (simp_all add: emit_def Let_def run_listeners_fields)

lemma emit_all_Cons: "emit_all h s (ee # evs) = emit_all h (emit h s ee) evs"
  by (simp add: emit_all_def)

lemma emit_all_Nil: "emit_all h s [] = s"
  by (simp add: emit_all_def)

lemma emit_all_fields:
  "entries (emit_all h s evs) = entries s \<and> ended (emit_all h s evs) = ended s \<and>
   created (emit_all h s evs) = created s \<and> scanned (emit_all h s evs) = scanned s \<and>
   listeners (emit_all h s evs) = listeners s \<and> disk (emit_all h s evs) = disk s"
  by (induction evs arbitrary: s) (simp_all add: emit_all_Nil emit_all_Cons emit_fields)

subsection \<open>A single file passes through\<close>

text \<open>
  Claim C6. When \<open>lstatSync\<close> succeeds and does not report a directory, the promise
  is resolved at once with \<open>{ isTemporary: false, path: filePath }\<close>, the path
  unchanged: no scan was started, no file was opened for writing, no archive entry
  and no listener exists, nothing was written on the disk, no event follows, and
  nothing that could still be emitted changes the result.
\<close>

theorem single_file_passes_through:
  assumes "lstatSync (fs_nodes h) filePath = Inr st" and "\<not> isDirectory st"
  shows "\<exists>s. packageFileFromPath h filePath = Inr s \<and>
             promise s = Resolved \<lparr>isTemporary = False, path = filePath\<rparr> \<and>
             scanned s = [] \<and> created s = [] \<and> entries s = [] \<and> listeners s = [] \<and>
             \<not> ended s \<and> uncaught s = [] \<and> disk s = Map.empty \<and>
             bundle_run h filePath = Inr s \<and>
             (\<forall>evs. promise (emit_all h s evs) = promise s)"
  using assms
  by (simp add: packageFileFromPath_def bundle_run_def start_def resolve_def
      stream_def emit_all_def emit_all_settled [unfolded emit_all_def])

theorem single_file_passes_through_witness:
  "\<exists>s. packageFileFromPath example_host ''/p/f.bin'' = Inr s \<and>
       promise s = Resolved \<lparr>isTemporary = False, path = ''/p/f.bin''\<rparr> \<and>
       scanned s = [] \<and> created s = [] \<and> entries s = [] \<and> disk s = Map.empty \<and>
       bundle_run example_host ''/p/f.bin'' = Inr s"
  using single_file_passes_through [of example_host "''/p/f.bin''" StatsFile]
  by (auto simp add: example_host_def lstatSync_def isDirectory_def)

subsection \<open>A failed scan rejects, and nothing else happens\<close>

text \<open>
  Claim C7. When the scan of a directory fails with an error, the promise is rejected
  with that very error; the directory was scanned once, no file was opened for
  writing, no entry was added to an archive, no listener was registered, nothing was
  written on the disk, and no later event changes the rejection.
\<close>

theorem scan_failure_rejects:
  assumes "lstatSync (fs_nodes h) filePath = Inr st" and "isDirectory st"
    and "readdirr h filePath = Inl e"
  shows "\<exists>s. packageFileFromPath h filePath = Inr s \<and>
             promise s = Rejected e \<and>
             scanned s = [filePath] \<and> created s = [] \<and> entries s = [] \<and> listeners s = [] \<and>
             \<not> ended s \<and> uncaught s = [] \<and> disk s = Map.empty \<and>
             bundle_run h filePath = Inr s \<and>
             (\<forall>evs. promise (emit_all h s evs) = Rejected e)"
  using assms
  by (simp add: packageFileFromPath_def bundle_run_def start_def reject_def
      stream_def emit_all_def emit_all_settled [unfolded emit_all_def])

theorem scan_failure_rejects_witness:
  "\<exists>s. packageFileFromPath example_host ''/p/gone'' = Inr s \<and>
       promise s = Rejected (HostError ''ENOENT: scandir'') \<and>
       scanned s = [''/p/gone''] \<and> created s = [] \<and> entries s = [] \<and> disk s = Map.empty \<and>
       bundle_run example_host ''/p/gone'' = Inr s"
  using scan_failure_rejects
          [of example_host "''/p/gone''" StatsDirectory "HostError ''ENOENT: scandir''"]
  by (auto simp add: example_host_def lstatSync_def isDirectory_def)

subsection \<open>The loop over the scanned files\<close>

text \<open>
  The loop adds the entries of the files in their order, each under the name
  \<open>yazl\<close> stores for its entry name, up to the first name that \<open>yazl\<close> refuses; it
  changes nothing else.
\<close>

lemma addFile_Inr:
  "addFile s realPath metadataPath = Inr s' \<Longrightarrow>
     \<exists>name. yazl_entry_name metadataPath = Inr name \<and>
            s' = s\<lparr>entries := entries s @ [(realPath, name)]\<rparr>"
  by (auto simp add: addFile_def split: sum.splits)

lemma addFile_Inl:
  "addFile s realPath metadataPath = Inl e \<Longrightarrow> yazl_entry_name metadataPath = Inl e"
  by (auto simp add: addFile_def split: sum.splits)

lemma addFiles_result:
  "addFiles h directoryPath files i s = (r, s') \<Longrightarrow>
     \<exists>es. s' = s\<lparr>entries := entries s @ es\<rparr> \<and>
       (case r of
          None \<Rightarrow>
            list_all2 (\<lambda>file (realPath, name). realPath = file \<and>
                 yazl_entry_name (entryName (process_cwd h InCallback) directoryPath file) = Inr name)
              (drop i files) es
        | Some e \<Rightarrow>
            i + length es < length files \<and>
            list_all2 (\<lambda>file (realPath, name). realPath = file \<and>
                 yazl_entry_name (entryName (process_cwd h InCallback) directoryPath file) = Inr name)
              (take (length es) (drop i files)) es \<and>
            yazl_entry_name (entryName (process_cwd h InCallback) directoryPath
                               (files ! (i + length es))) = Inl e)"
proof (induction h directoryPath files i s arbitrary: r s' rule: addFiles.induct)
  case (1 h directoryPath files i s)
  let ?R = "\<lambda>file (realPath, name). realPath = file \<and>
       yazl_entry_name (entryName (process_cwd h InCallback) directoryPath file) = Inr name"
  show ?case
  proof (cases "i < length files")
    case False
    with "1.prems" have "r = None" "s' = s\<lparr>entries := entries s @ []\<rparr>"
      by (simp_all add: addFiles.simps [of h directoryPath files i s])
    with False show ?thesis by auto
  next
    case True
    let ?file = "files ! i"
    let ?name = "entryName (process_cwd h InCallback) directoryPath ?file"
    from True have dr: "drop i files = ?file # drop (i + 1) files"
      by (simp add: Cons_nth_drop_Suc)
    show ?thesis
    proof (cases "addFile s ?file ?name")
      case (Inl e)
      with True "1.prems" have "r = Some e" "s' = s\<lparr>entries := entries s @ []\<rparr>"
        by (simp_all add: addFiles.simps [of h directoryPath files i s] Let_def)
      moreover from addFile_Inl [OF Inl] have "yazl_entry_name ?name = Inl e" .
      ultimately show ?thesis using True by (intro exI [of _ "[]"]) simp
    next
      case (Inr s1)
      from addFile_Inr [OF Inr] obtain name where
        nm: "yazl_entry_name ?name = Inr name" and
        s1: "s1 = s\<lparr>entries := entries s @ [(?file, name)]\<rparr>"
        by blast
      from True "1.prems" Inr have rec: "addFiles h directoryPath files (i + 1) s1 = (r, s')"
        by (simp add: addFiles.simps [of h directoryPath files i s] Let_def)
      from "1.IH" [OF True refl refl Inr rec] obtain es where
        s': "s' = s1\<lparr>entries := entries s1 @ es\<rparr>" and
        c: "case r of
          None \<Rightarrow> list_all2 ?R (drop (i + 1) files) es
        | Some e \<Rightarrow>
            i + 1 + length es < length files \<and>
            list_all2 ?R (take (length es) (drop (i + 1) files)) es \<and>
            yazl_entry_name (entryName (process_cwd h InCallback) directoryPath
                               (files ! (i + 1 + length es))) = Inl e"
        by blast
      from s' s1 have "s' = s\<lparr>entries := entries s @ ((?file, name) # es)\<rparr>" by simp
      moreover from c nm have "case r of
          None \<Rightarrow> list_all2 ?R (drop i files) ((?file, name) # es)
        | Some e \<Rightarrow>
            i + length ((?file, name) # es) < length files \<and>
            list_all2 ?R (take (length ((?file, name) # es)) (drop i files)) ((?file, name) # es) \<and>
            yazl_entry_name (entryName (process_cwd h InCallback) directoryPath
                               (files ! (i + length ((?file, name) # es)))) = Inl e"
        unfolding dr by (cases r) simp_all
      ultimately show ?thesis by blast
    qed
  qed
qed

lemma addFiles_accepted:
  "\<forall>file \<in> set (drop i files).
      \<exists>name. yazl_entry_name (entryName (process_cwd h InCallback) directoryPath file) = Inr name \<Longrightarrow>
   fst (addFiles h directoryPath files i s) = None"
proof -
  assume a: "\<forall>file \<in> set (drop i files).
      \<exists>name. yazl_entry_name (entryName (process_cwd h InCallback) directoryPath file) = Inr name"
  obtain r s' where res: "addFiles h directoryPath files i s = (r, s')"
    by (cases "addFiles h directoryPath files i s")
  show ?thesis
  proof (cases r)
    case None
    with res show ?thesis by simp
  next
    case (Some e)
    from addFiles_result [OF res] Some obtain es :: "(string \<times> string) list" where
      l: "i + length es < length files" and
      n: "yazl_entry_name (entryName (process_cwd h InCallback) directoryPath
                               (files ! (i + length es))) = Inl e"
      by auto
    from l have "files ! (i + length es) \<in> set (drop i files)"
      by (auto simp add: in_set_conv_nth intro!: exI [of _ "length es"])
    with a n show ?thesis by auto
  qed
qed

lemma archive_files_scanned: "scanned (archive_files h directoryPath files s) = scanned s"
  by (auto simp add: archive_files_def Let_def on_def dest!: addFiles_result
      split: prod.splits option.splits)

subsection \<open>The classification of the path\<close>

text \<open>
  Claim C2 as it is stated fails on the code: the host of the example holds a
  symbolic link \<open>/p/link\<close> whose target
  \<open>/p/root\<close> is a directory. \<open>lstatSync\<close> reports the link itself, which is no
  directory, and \<open>packageFileFromPath\<close> takes the branch of a single file: the link
  is handed back as the artifact, and its target is never scanned.
\<close>

theorem symlink_to_directory_counterexample:
  "fs_nodes example_host ''/p/link'' = Some (SymbolicLink ''/p/root'') \<and>
   fs_nodes example_host ''/p/root'' = Some DirNode \<and>
   lstatSync (fs_nodes example_host) ''/p/link'' = Inr StatsSymbolicLink \<and>
   \<not> isDirectory StatsSymbolicLink \<and>
   packageFileFromPath example_host ''/p/link'' =
     Inr (start\<lparr>promise := Resolved \<lparr>isTemporary = False, path = ''/p/link''\<rparr>\<rparr>)"
  by (simp add: example_host_def packageFileFromPath_def lstatSync_def isDirectory_def
      resolve_def start_def)

text \<open>
  Claim C2, as amended. The classification rests on what \<open>lstat\<close> reports for the
  path itself, a final symbolic link not followed: a path that \<open>lstat\<close> cannot
  find makes the call throw, a directory is scanned, and every other node, every
  symbolic link included, whatever its target, is handed back as a single file with
  the path unchanged.
\<close>

theorem classification_by_lstat:
  "(fs_nodes h p = None \<longrightarrow> packageFileFromPath h p = Inl (HostError ''ENOENT'')) \<and>
   (fs_nodes h p = Some DirNode \<longrightarrow> (\<exists>s. packageFileFromPath h p = Inr s \<and> scanned s = [p])) \<and>
   (\<forall>n. fs_nodes h p = Some n \<and> n \<noteq> DirNode \<longrightarrow>
        packageFileFromPath h p =
          Inr (start\<lparr>promise := Resolved \<lparr>isTemporary = False, path = p\<rparr>\<rparr>)) \<and>
   (\<forall>target. fs_nodes h p = Some (SymbolicLink target) \<longrightarrow>
        packageFileFromPath h p =
          Inr (start\<lparr>promise := Resolved \<lparr>isTemporary = False, path = p\<rparr>\<rparr>))"
  by (auto simp add: packageFileFromPath_def lstatSync_def isDirectory_def resolve_def
      start_def archive_files_scanned Let_def split: node.splits sum.splits prod.splits)

theorem classification_by_lstat_witness:
  "packageFileFromPath example_host ''/p/none'' = Inl (HostError ''ENOENT'') \<and>
   (\<exists>s. packageFileFromPath example_host ''/p/root'' = Inr s \<and> scanned s = [''/p/root'']) \<and>
   packageFileFromPath example_host ''/p/f.bin'' =
     Inr (start\<lparr>promise := Resolved \<lparr>isTemporary = False, path = ''/p/f.bin''\<rparr>\<rparr>) \<and>
   packageFileFromPath example_host ''/p/link'' =
     Inr (start\<lparr>promise := Resolved \<lparr>isTemporary = False, path = ''/p/link''\<rparr>\<rparr>)"
  using classification_by_lstat [of example_host "''/p/none''"]
    classification_by_lstat [of example_host "''/p/root''"]
    classification_by_lstat [of example_host "''/p/f.bin''"]
    classification_by_lstat [of example_host "''/p/link''"]
  by (simp add: example_host_def)

subsection \<open>Rounding to a double\<close>

lemma round_half_even_int: "round_half_even (of_int n) = n"
  by (simp add: round_half_even_def)

lemma round_half_even_le:
  assumes "x \<le> of_int n"
  shows "round_half_even x \<le> n"
proof (cases "x = of_int n")
  case True
  then show ?thesis by (simp add: round_half_even_int)
next
  case False
  with assms have "x < of_int n" by simp
  then have "\<lfloor>x\<rfloor> < n" by (simp add: floor_less_iff)
  then have "\<lfloor>x\<rfloor> + 1 \<le> n" by simp
  moreover have "round_half_even x \<le> \<lfloor>x\<rfloor> + 1"
    by (simp add: round_half_even_def Let_def)
  ultimately show ?thesis by linarith
qed

lemma round_half_even_ge:
  assumes "of_int n \<le> x"
  shows "n \<le> round_half_even x"
proof -
  from assms have "n \<le> \<lfloor>x\<rfloor>" by (simp add: le_floor_iff)
  moreover have "\<lfloor>x\<rfloor> \<le> round_half_even x"
    by (simp add: round_half_even_def Let_def)
  ultimately show ?thesis by linarith
qed

lemma round_half_even_below_half:
  assumes "x < of_int n - 1 / 2"
  shows "round_half_even x \<le> n - 1"
proof -
  from assms have "x < of_int n" by simp
  then have f: "\<lfloor>x\<rfloor> \<le> n - 1" by (simp add: floor_less_iff)
  show ?thesis
  proof (cases "\<lfloor>x\<rfloor> = n - 1")
    case True
    with assms have "x - of_int \<lfloor>x\<rfloor> < 1 / 2" by simp
    then have "round_half_even x = \<lfloor>x\<rfloor>" by (simp add: round_half_even_def Let_def)
    with True show ?thesis by simp
  next
    case False
    with f have "\<lfloor>x\<rfloor> + 1 \<le> n - 1" by simp
    moreover have "round_half_even x \<le> \<lfloor>x\<rfloor> + 1"
      by (simp add: round_half_even_def Let_def)
    ultimately show ?thesis by linarith
  qed
qed

lemma round_half_even_above_half:
  assumes "of_int n - 1 / 2 < x" and "x \<le> of_int n"
  shows "round_half_even x = n"
proof (cases "x = of_int n")
  case True
  then show ?thesis by (simp add: round_half_even_int)
next
  case False
  with assms have lt: "x < of_int n" by simp
  from assms(1) have "of_int (n - 1) \<le> x" by simp
  then have "n - 1 \<le> \<lfloor>x\<rfloor>" by (simp add: le_floor_iff)
  moreover from lt have "\<lfloor>x\<rfloor> < n" by (simp add: floor_less_iff)
  ultimately have f: "\<lfloor>x\<rfloor> = n - 1" by simp
  with assms(1) have "1 / 2 < x - of_int \<lfloor>x\<rfloor>" by simp
  then have "round_half_even x = \<lfloor>x\<rfloor> + 1" by (simp add: round_half_even_def Let_def)
  with f show ?thesis by simp
qed

lemma powr_53: "(2::real) powr (a - 52) * 9007199254740992 = 2 powr (a + 1)"
proof -
  have "(2::real) powr (a - 52) * 2 powr 53 = 2 powr (a - 52 + 53)"
    by (rule powr_add [symmetric])
  then show ?thesis by (simp add: add.commute)
qed

lemma pow2_powr: "pow2 e = 2 powr of_int e"
  by (simp add: pow2_def powr_int)

lemma pow2_positive: "0 < pow2 e"
  by (simp add: pow2_powr)

lemma find_upto_first:
  "a \<le> e \<Longrightarrow> e \<le> b \<Longrightarrow> P e \<Longrightarrow> (\<forall>e'. a \<le> e' \<and> e' < e \<longrightarrow> \<not> P e') \<Longrightarrow>
   find P [a..b] = Some e"
proof (induction "nat (e - a)" arbitrary: a)
  case 0
  then have "a = e" by simp
  with 0 show ?case by (simp add: upto_rec1)
next
  case (Suc n)
  then have lt: "a < e" by simp
  with Suc.prems have na: "\<not> P a" by simp
  from lt Suc.prems have ab: "a \<le> b" by simp
  from Suc.hyps(2) have n: "n = nat (e - (a + 1))" by simp
  from lt have "a + 1 \<le> e" by simp
  moreover from Suc.prems(4) have "\<forall>e'. a + 1 \<le> e' \<and> e' < e \<longrightarrow> \<not> P e'" by simp
  ultimately have "find P [a + 1..b] = Some e"
    using Suc.prems(2,3) by (intro Suc.hyps(1) [OF n])
  with na ab show ?case by (simp add: upto_rec1)
qed

text \<open>The exponent that the search finds is the exponent of the binade.\<close>

lemma binade_log:
  assumes "x \<noteq> 0" and "\<bar>x\<bar> < 2 powr 1024"
  shows "binade x = max \<lfloor>log 2 \<bar>x\<bar>\<rfloor> (- 1022)"
proof -
  define l where "l = \<lfloor>log 2 \<bar>x\<bar>\<rfloor>"
  define E where "E = max l (- 1022)"
  from assms(1) have pos: "0 < \<bar>x\<bar>" by simp
  then have b: "2 powr of_int l \<le> \<bar>x\<bar>" "\<bar>x\<bar> < 2 powr of_int (l + 1)"
    using floor_log_eq_powr_iff [of "\<bar>x\<bar>" 2 l] by (simp_all add: l_def)
  from b(1) assms(2) have "(2::real) powr of_int l < 2 powr of_int 1024" by simp
  then have "l < 1024" by (simp only: powr_less_cancel_iff)
  then have hi: "E \<le> 1023" and lo: "- 1022 \<le> E" by (simp_all add: E_def)
  have "(2::real) powr of_int (l + 1) \<le> 2 powr of_int (E + 1)" by (simp add: E_def)
  with b(2) have "\<bar>x\<bar> < 2 powr of_int (E + 1)" by linarith
  then have P: "\<bar>x\<bar> < pow2 (E + 1)" by (simp add: pow2_powr)
  have first: "\<forall>e'. - 1022 \<le> e' \<and> e' < E \<longrightarrow> \<not> \<bar>x\<bar> < pow2 (e' + 1)"
  proof (intro allI impI)
    fix e'
    assume e': "- 1022 \<le> e' \<and> e' < E"
    then have "E = l" and "e' + 1 \<le> l" by (simp_all add: E_def max_def split: if_splits)
    then have "(2::real) powr of_int (e' + 1) \<le> 2 powr of_int l" by simp
    with b(1) have "\<not> \<bar>x\<bar> < 2 powr of_int (e' + 1)" by linarith
    then show "\<not> \<bar>x\<bar> < pow2 (e' + 1)" by (simp add: pow2_powr)
  qed
  from find_upto_first [of "- 1022" E 1023 "\<lambda>e. \<bar>x\<bar> < pow2 (e + 1)", OF lo hi P first]
  show ?thesis by (simp add: binade_def E_def l_def)
qed

lemma binary64_unfold:
  "x \<noteq> 0 \<Longrightarrow> \<bar>x\<bar> < 2 powr 1024 \<Longrightarrow> binary64 x =
     2 powr (of_int (max \<lfloor>log 2 \<bar>x\<bar>\<rfloor> (- 1022)) - 52) *
       of_int (round_half_even (x / 2 powr (of_int (max \<lfloor>log 2 \<bar>x\<bar>\<rfloor> (- 1022)) - 52)))"
  by (simp add: binary64_def Let_def binade_log pow2_powr)

lemma binary64_nonneg:
  assumes "0 \<le> x"
  shows "0 \<le> binary64 x"
proof (cases "x = 0")
  case True
  then show ?thesis by (simp add: binary64_def)
next
  case False
  define q :: real where "q = pow2 (binade x - 52)"
  have q: "0 < q" by (simp add: q_def pow2_positive)
  with assms have "of_int 0 \<le> x / q" by simp
  then have "0 \<le> round_half_even (x / q)" by (rule round_half_even_ge)
  with q have "0 \<le> q * of_int (round_half_even (x / q))" by simp
  with False show ?thesis by (simp add: binary64_def Let_def q_def)
qed

lemma binary64_below_power:
  assumes "0 < x" and "x < 2 powr of_int n" and "- 1022 < n" and "n \<le> 1024"
  shows "binary64 x \<le> 2 powr of_int n"
proof -
  from assms(4) have "(2::real) powr of_int n \<le> 2 powr of_int 1024"
    by (simp only: powr_le_cancel_iff)
  with assms(1,2) have small: "\<bar>x\<bar> < 2 powr 1024" by simp
  define e where "e = \<lfloor>log 2 x\<rfloor>"
  from assms(1) have b: "2 powr of_int e \<le> x" "x < 2 powr of_int (e + 1)"
    using floor_log_eq_powr_iff [of x 2 e] by (simp_all add: e_def)
  from b(1) assms(2) have "(2::real) powr of_int e < 2 powr of_int n" by linarith
  then have en: "e < n" by simp
  define E where "E = max e (- 1022)"
  from en assms(3) have En: "E + 1 \<le> n" and eE: "e \<le> E" by (simp_all add: E_def)
  define q :: real where "q = 2 powr (of_int E - 52)"
  have q: "0 < q" by (simp add: q_def)
  from eE have "(2::real) powr of_int (e + 1) \<le> 2 powr of_int (E + 1)" by simp
  with b(2) have "x < 2 powr of_int (E + 1)" by linarith
  also have "\<dots> = q * 9007199254740992"
    using powr_53 [of "of_int E"] by (simp add: q_def)
  finally have "x / q < 9007199254740992" using q by (simp add: field_simps)
  then have "x / q \<le> of_int 9007199254740992" by simp
  then have "round_half_even (x / q) \<le> 9007199254740992" by (rule round_half_even_le)
  then have "real_of_int (round_half_even (x / q)) \<le> 9007199254740992"
    by linarith
  with q have "q * of_int (round_half_even (x / q)) \<le> q * 9007199254740992"
    by (simp add: mult_left_mono)
  also have "\<dots> = 2 powr of_int (E + 1)"
    using powr_53 [of "of_int E"] by (simp add: q_def)
  also from En have "\<dots> \<le> 2 powr of_int n" by simp
  finally have "q * of_int (round_half_even (x / q)) \<le> 2 powr of_int n" .
  moreover from assms(1) have "x \<noteq> 0" "\<bar>x\<bar> = x" by simp_all
  ultimately show ?thesis
    unfolding binary64_unfold [OF \<open>x \<noteq> 0\<close> small] q_def E_def e_def by simp
qed

lemma binary64_in_binade:
  assumes "2 powr of_int e \<le> x" and "x < 2 powr of_int (e + 1)" and "- 1022 \<le> e"
    and "e \<le> 1023"
  shows "binary64 x = 2 powr (of_int e - 52) * of_int (round_half_even (x / 2 powr (of_int e - 52)))"
proof -
  have "0 < (2::real) powr of_int e" by simp
  with assms(1) have pos: "0 < x" by linarith
  from assms(4) have "(2::real) powr of_int (e + 1) \<le> 2 powr of_int 1024"
    by (simp only: powr_le_cancel_iff)
  with assms(2) pos have small: "\<bar>x\<bar> < 2 powr 1024" by simp
  from pos assms(1,2) have "\<lfloor>log 2 x\<rfloor> = e"
    by (simp add: floor_log_eq_powr_iff)
  with pos assms(3) small show ?thesis
    by (simp add: binary64_unfold max_def)
qed

text \<open>The product of a double below 1 with 62 is rounded to a double below 62.\<close>

lemma binary64_product_below_62:
  assumes "0 \<le> x" and "x \<le> 62 - 62 / 2 ^ 53"
  shows "0 \<le> binary64 x \<and> binary64 x < 62"
proof
  from assms(1) show "0 \<le> binary64 x" by (rule binary64_nonneg)
  show "binary64 x < 62"
  proof (cases "x < 32")
    case True
    show ?thesis
    proof (cases "x = 0")
      case True
      then show ?thesis by (simp add: binary64_def)
    next
      case False
      with assms(1) have "0 < x" by simp
      moreover from True have "x < 2 powr of_int 5" by simp
      ultimately have "binary64 x \<le> 2 powr of_int 5"
        by (rule binary64_below_power) simp_all
      then show ?thesis by simp
    qed
  next
    case False
    then have lo: "2 powr of_int 5 \<le> x" by simp
    from assms(2) have hi: "x < 2 powr of_int (5 + 1)" by simp
    have q: "(2::real) powr (of_int 5 - 52) = 1 / 2 ^ 47"
      by (simp add: powr_neg_numeral)
    from binary64_in_binade [OF lo hi]
    have b: "binary64 x = (1 / 2 ^ 47) * of_int (round_half_even (x * 2 ^ 47))"
      unfolding q by simp
    from assms(2) have "x * 2 ^ 47 < of_int 8725724278030336 - 1 / 2" by simp
    then have "round_half_even (x * 2 ^ 47) \<le> 8725724278030336 - 1"
      by (rule round_half_even_below_half)
    then have "real_of_int (round_half_even (x * 2 ^ 47)) \<le> 8725724278030335"
      by linarith
    then show ?thesis unfolding b by (simp add: field_simps)
  qed
qed

lemma double_below_1:
  assumes "is_double r" and "0 \<le> r" and "r < 1"
  shows "r \<le> 1 - 1 / 2 ^ 53"
proof (cases "r < 1 / 2")
  case True
  then show ?thesis by simp
next
  case False
  then have lo: "2 powr of_int (- 1) \<le> r" by (simp add: powr_neg_numeral powr_minus divide_simps)
  from assms(3) have hi: "r < 2 powr of_int (- 1 + 1)" by simp
  have q: "(2::real) powr (of_int (- 1) - 52) = 1 / 2 ^ 53"
    by (simp add: powr_neg_numeral)
  define k where "k = round_half_even (r * 2 ^ 53)"
  from binary64_in_binade [OF lo hi] assms(1)
  have r: "r = (1 / 2 ^ 53) * of_int k"
    unfolding q is_double_def k_def by simp
  with assms(3) have "real_of_int k < 9007199254740992" by (simp add: field_simps)
  then have "k < 9007199254740992" by linarith
  then have "k \<le> 9007199254740991" by simp
  then have "real_of_int k \<le> 9007199254740991" by linarith
  with r show ?thesis by (simp add: field_simps)
qed

lemma random_index_double:
  assumes "is_double r" and "0 \<le> r" and "r < 1"
  shows "0 \<le> \<lfloor>binary64 (r * 62)\<rfloor> \<and> \<lfloor>binary64 (r * 62)\<rfloor> < 62"
proof -
  from double_below_1 [OF assms] have hi: "r * 62 \<le> 62 - 62 / 2 ^ 53" by (simp add: field_simps)
  from assms(2) have lo: "0 \<le> r * 62" by simp
  from lo hi have "0 \<le> binary64 (r * 62) \<and> binary64 (r * 62) < 62"
    by (rule binary64_product_below_62)
  then show ?thesis by (simp add: floor_less_iff)
qed

lemma binary64_exact:
  assumes "2 powr of_int e \<le> x" and "x < 2 powr of_int (e + 1)" and "- 1022 \<le> e"
    and "e \<le> 1023" and "x / 2 powr (of_int e - 52) = of_int n"
  shows "binary64 x = x"
proof -
  have q: "0 < (2::real) powr (of_int e - 52)" by simp
  from binary64_in_binade [OF assms(1-4)]
  have "binary64 x = 2 powr (of_int e - 52) * (x / 2 powr (of_int e - 52))"
    unfolding assms(5) round_half_even_int .
  with q show ?thesis by simp
qed

text \<open>
  Two doubles that \<open>Math.random()\<close> can return, and their products with 62: one half,
  whose product is 31, and the double \<open>1162219258676257 / 2 ^ 52\<close>, whose exact
  product is \<open>16 - 1 / 2 ^ 51\<close> and is rounded up to 16.
\<close>

lemma half_is_double: "is_double (1 / 2)"
proof -
  have "(2::real) powr of_int (- 1) \<le> 1 / 2"
    by (simp add: powr_neg_numeral powr_minus divide_simps)
  moreover have "(1 / 2 :: real) < 2 powr of_int (- 1 + 1)" by simp
  moreover have "(- 1022 :: int) \<le> - 1" and "(- 1 :: int) \<le> 1023" by simp_all
  moreover have "(1 / 2 :: real) / 2 powr (of_int (- 1) - 52) = of_int 4503599627370496"
    by (simp add: powr_neg_numeral)
  ultimately show ?thesis unfolding is_double_def
    by (rule binary64_exact)
qed

lemma binary64_31: "binary64 31 = 31"
proof -
  have "(2::real) powr of_int 4 \<le> 31" by simp
  moreover have "(31::real) < 2 powr of_int (4 + 1)" by simp
  moreover have "(- 1022 :: int) \<le> 4" and "(4 :: int) \<le> 1023" by simp_all
  moreover have "(31 :: real) / 2 powr (of_int 4 - 52) = of_int 8725724278030336"
    by (simp add: powr_neg_numeral)
  ultimately show ?thesis
    by (rule binary64_exact)
qed

lemma rounded_up_is_double: "is_double (1162219258676257 / 2 ^ 52)"
proof -
  have "(2::real) powr of_int (- 2) \<le> 1162219258676257 / 2 ^ 52"
    by (simp add: powr_neg_numeral powr_minus divide_simps)
  moreover have "(1162219258676257 / 2 ^ 52 :: real) < 2 powr of_int (- 2 + 1)"
    by (simp add: powr_neg_numeral powr_minus divide_simps)
  moreover have "(- 1022 :: int) \<le> - 2" and "(- 2 :: int) \<le> 1023" by simp_all
  moreover have "(1162219258676257 / 2 ^ 52 :: real) / 2 powr (of_int (- 2) - 52) =
      of_int 4648877034705028"
    by (simp add: powr_neg_numeral)
  ultimately show ?thesis unfolding is_double_def
    by (rule binary64_exact)
qed

lemma rounded_up_product:
  "1162219258676257 / 2 ^ 52 * (62::real) < 16 \<and>
   \<lfloor>1162219258676257 / 2 ^ 52 * (62::real)\<rfloor> = 15 \<and>
   binary64 (1162219258676257 / 2 ^ 52 * 62) = 16"
proof -
  define x :: real where "x = 1162219258676257 / 2 ^ 52 * 62"
  have lo: "2 powr of_int 3 \<le> x" by (simp add: x_def)
  have hi: "x < 2 powr of_int (3 + 1)" by (simp add: x_def)
  have q: "(2::real) powr (of_int 3 - 52) = 1 / 2 ^ 49"
    by (simp add: powr_neg_numeral)
  have "of_int 9007199254740992 - 1 / 2 < x * 2 ^ 49" by (simp add: x_def)
  moreover have "x * 2 ^ 49 \<le> of_int 9007199254740992" by (simp add: x_def)
  ultimately have "round_half_even (x * 2 ^ 49) = 9007199254740992"
    by (rule round_half_even_above_half)
  with binary64_in_binade [OF lo hi] have "binary64 x = 16"
    unfolding q by simp
  moreover have "x < 16" by (simp add: x_def)
  moreover have "\<lfloor>x\<rfloor> = 15" by (simp add: x_def floor_eq_iff)
  ultimately show ?thesis unfolding x_def by simp
qed

subsection \<open>The generated name\<close>

lemma validChar_alphanumeric: "list_all is_alphanumeric validChar"
  by (simp add: validChar_def is_alphanumeric_def)

lemma validChar_length: "length validChar = 62"
  by (simp add: validChar_def)

lemma validChar_distinct: "distinct validChar"
  by (simp add: validChar_def)

lemma charAt_subset: "set (charAt s i) \<subseteq> set s"
  by (auto simp add: charAt_def)

lemma charAt_length: "0 \<le> i \<Longrightarrow> i < int (length s) \<Longrightarrow> length (charAt s i) = 1"
  by (simp add: charAt_def)

text \<open>
  The index \<open>Math.floor(Math.random() * validChar.length)\<close>, computed on doubles,
  is an index of \<open>validChar\<close>: a double below 1 is at most \<open>1 - 1 / 2 ^ 53\<close>, and
  the rounded product of such a double with 62 stays below 62.
\<close>

lemma random_index:
  assumes "is_double r" and "0 \<le> r" and "r < 1"
  shows "0 \<le> \<lfloor>binary64 (r * real (length validChar))\<rfloor> \<and>
         \<lfloor>binary64 (r * real (length validChar))\<rfloor> < int (length validChar)"
  using random_index_double [OF assms] by (simp add: validChar_length)

lemma loop_subset:
  "set filename \<subseteq> set validChar \<Longrightarrow>
   set (generateRandomFilename_loop random len i filename) \<subseteq> set validChar"
proof (induction random len i filename rule: generateRandomFilename_loop.induct)
  case (1 random len i filename)
  show ?case
  proof (cases "i < len")
    case True
    from "1.prems" charAt_subset [of validChar]
    have "set (filename @ charAt validChar \<lfloor>binary64 (random i * real (length validChar))\<rfloor>)
            \<subseteq> set validChar"
      by simp
    from "1.IH" [OF True this] True show ?thesis
      by (simp add: generateRandomFilename_loop.simps [of random len i filename])
  next
    case False
    with "1.prems" show ?thesis
      by (simp add: generateRandomFilename_loop.simps [of random len i filename])
  qed
qed

lemma loop_length:
  "(\<forall>k. i \<le> k \<and> k < len \<longrightarrow> is_double (random k) \<and> 0 \<le> random k \<and> random k < 1) \<Longrightarrow>
   length (generateRandomFilename_loop random len i filename) = length filename + (len - i)"
proof (induction random len i filename rule: generateRandomFilename_loop.induct)
  case (1 random len i filename)
  show ?case
  proof (cases "i < len")
    case True
    with "1.prems" have r: "is_double (random i)" "0 \<le> random i" "random i < 1" by auto
    from random_index [OF r]
    have "length (charAt validChar \<lfloor>binary64 (random i * real (length validChar))\<rfloor>) = 1"
      by (simp add: charAt_length)
    moreover from "1.prems"
    have "\<forall>k. i + 1 \<le> k \<and> k < len \<longrightarrow> is_double (random k) \<and> 0 \<le> random k \<and> random k < 1"
      by auto
    from "1.IH" [OF True this]
    have "length (generateRandomFilename_loop random len (i + 1)
            (filename @ charAt validChar \<lfloor>binary64 (random i * real (length validChar))\<rfloor>)) =
          length (filename @ charAt validChar \<lfloor>binary64 (random i * real (length validChar))\<rfloor>)
            + (len - (i + 1))" .
    ultimately show ?thesis using True
      by (simp add: generateRandomFilename_loop.simps [of random len i filename])
  next
    case False
    then show ?thesis
      by (simp add: generateRandomFilename_loop.simps [of random len i filename])
  qed
qed

lemma loop_concat:
  "generateRandomFilename_loop random len i filename =
     filename @ concat (map (\<lambda>k. charAt validChar \<lfloor>binary64 (random k * real (length validChar))\<rfloor>)
                          [i..<len])"
proof (induction random len i filename rule: generateRandomFilename_loop.induct)
  case (1 random len i filename)
  show ?case
  proof (cases "i < len")
    case True
    then have "[i..<len] = i # [i + 1..<len]" by (simp add: upt_conv_Cons)
    with "1.IH" [OF True] True show ?thesis
      by (simp add: generateRandomFilename_loop.simps [of random len i filename])
  next
    case False
    then show ?thesis
      by (simp add: generateRandomFilename_loop.simps [of random len i filename])
  qed
qed

lemma generateRandomFilename_concat:
  "generateRandomFilename random len =
     concat (map (\<lambda>k. charAt validChar \<lfloor>binary64 (random k * real (length validChar))\<rfloor>)
               [0..<len])"
  by (simp add: generateRandomFilename_def loop_concat)

lemma generateRandomFilename_subset:
  "set (generateRandomFilename random len) \<subseteq> set validChar"
  by (simp add: generateRandomFilename_def loop_subset)

lemma generateRandomFilename_length:
  "(\<forall>k<len. is_double (random k) \<and> 0 \<le> random k \<and> random k < 1) \<Longrightarrow>
   length (generateRandomFilename random len) = len"
  using loop_length [of 0 len random "[]"] by (simp add: generateRandomFilename_def)

lemma validChar_no_slash: "CHR ''/'' \<notin> set validChar"
  by (simp add: validChar_def)

lemma temporary_name_segment: "segment (generateRandomFilename random len @ ''.zip'')"
proof -
  from generateRandomFilename_subset [of random len] validChar_no_slash
  have "CHR ''/'' \<notin> set (generateRandomFilename random len)" by auto
  moreover have "\<And>s :: string. 4 \<le> length s \<Longrightarrow> s \<noteq> ''.'' \<and> s \<noteq> ''..''"
    by auto
  from this [of "generateRandomFilename random len @ ''.zip''"]
  have "generateRandomFilename random len @ ''.zip'' \<noteq> ''.''"
    and "generateRandomFilename random len @ ''.zip'' \<noteq> ''..''"
    by simp_all
  ultimately show ?thesis by (simp add: segment_def)
qed

lemma example_random:
  "Math_random example_host k = (if k = 0 then 1162219258676257 / 2 ^ 52 else 1 / 2)"
  "Math_random example_host_deleted k = Math_random example_host k"
  "Math_random example_host_moved k = Math_random example_host k"
  by (simp_all add: example_host_def example_host_deleted_def example_host_moved_def)

lemma example_random_double:
  "is_double (Math_random example_host k) \<and> 0 \<le> Math_random example_host k \<and>
   Math_random example_host k < 1"
  using half_is_double rounded_up_is_double by (simp add: example_random(1))

lemma example_index:
  "\<lfloor>binary64 (Math_random example_host k * real (length validChar))\<rfloor> =
     (if k = 0 then 16 else 31)"
proof (cases "k = 0")
  case True
  from rounded_up_product
  have "\<lfloor>binary64 (1162219258676257 / 2 ^ 52 * 62)\<rfloor> = 16" by simp
  with True show ?thesis
    by (simp only: example_random(1) validChar_length if_True of_nat_numeral simp_thms)
next
  case False
  have "(1 / 2 :: real) * 62 = 31" by simp
  with binary64_31 have "\<lfloor>binary64 (1 / 2 * 62)\<rfloor> = 31" by simp
  with False show ?thesis
    by (simp only: example_random(1) validChar_length if_False of_nat_numeral simp_thms)
qed

lemma example_char:
  "charAt validChar \<lfloor>binary64 (Math_random example_host k * real (length validChar))\<rfloor> =
     (if k = 0 then ''Q'' else ''f'')"
  unfolding example_index by (simp add: charAt_def validChar_def)

lemma example_name: "generateRandomFilename (Math_random example_host) 15 = ''Qffffffffffffff''"
  by (simp add: generateRandomFilename_def generateRandomFilename_loop.simps example_char)

subsection \<open>Events and the listeners of the directory branch\<close>

lemma wired_disk: "wired fileName (s\<lparr>disk := d\<rparr>) = wired fileName s"
  by (simp add: wired_def)

lemma emit_wired:
  assumes "wired fileName s"
  shows "emit h s (WriteStream, ErrorEvent e) = s\<lparr>promise := reject (promise s) e\<rparr>"
    and "emit h s (WriteStream, CloseEvent) =
           s\<lparr>promise := resolve (promise s)
                  \<lparr>isTemporary = True, path = posix_join [process_cwd h AtClose, fileName]\<rparr>\<rparr>"
    and "em \<noteq> WriteStream \<Longrightarrow> emit h s (em, ErrorEvent e) = s\<lparr>uncaught := uncaught s @ [e]\<rparr>"
    and "em \<noteq> WriteStream \<Longrightarrow> emit h s (em, CloseEvent) = s"
  using assms
  by (simp_all add: wired_def emit_def name_of_def run_listener_def)

lemma wired_emit: "wired fileName s \<Longrightarrow> wired fileName (emit h s ee)"
  using emit_fields [of h s ee] by (simp add: wired_def)

lemma wired_emit_all: "wired fileName s \<Longrightarrow> wired fileName (emit_all h s evs)"
  using emit_all_fields [of h s evs] by (simp add: wired_def)

lemma resolved_after_close:
  assumes "wired fileName s" and "promise s = Pending"
    and "promise (emit_all h s evs) = Resolved d"
  shows "d = \<lparr>isTemporary = True, path = posix_join [process_cwd h AtClose, fileName]\<rparr> \<and>
         (\<exists>before after. evs = before @ (WriteStream, CloseEvent) # after \<and>
            (\<forall>e. (WriteStream, ErrorEvent e) \<notin> set before))"
  using assms
proof (induction evs arbitrary: s)
  case Nil
  then show ?case by (simp add: emit_all_Nil)
next
  case (Cons ee evs)
  obtain em ev where ee: "ee = (em, ev)" by (cases ee)
  note w = Cons.prems(1)
  show ?case
  proof (cases "em = WriteStream")
    case True
    show ?thesis
    proof (cases ev)
      case (ErrorEvent e)
      with True ee w Cons.prems(2)
      have "promise (emit h s ee) = Rejected e"
        by (simp add: emit_wired [OF w] reject_def)
      then have "promise (emit_all h (emit h s ee) evs) = Rejected e"
        by (simp add: emit_all_settled)
      with Cons.prems(3) show ?thesis by (simp add: emit_all_Cons)
    next
      case CloseEvent
      let ?d = "\<lparr>isTemporary = True, path = posix_join [process_cwd h AtClose, fileName]\<rparr>"
      from CloseEvent True ee w Cons.prems(2)
      have "promise (emit h s ee) = Resolved ?d"
        by (simp add: emit_wired [OF w] resolve_def)
      then have "promise (emit_all h (emit h s ee) evs) = Resolved ?d"
        by (simp add: emit_all_settled)
      with Cons.prems(3) have "d = ?d" by (simp add: emit_all_Cons)
      moreover have "ee # evs = [] @ (WriteStream, CloseEvent) # evs \<and>
           (\<forall>e. (WriteStream, ErrorEvent e) \<notin> set [])"
        using CloseEvent True ee by simp
      ultimately show ?thesis by blast
    qed
  next
    case False
    have p: "promise (emit h s ee) = Pending"
      using False ee w Cons.prems(2) by (cases ev) (simp_all add: emit_wired [OF w])
    from Cons.IH [OF wired_emit [OF w] p] Cons.prems(3)
    obtain before after where
      d: "d = \<lparr>isTemporary = True, path = posix_join [process_cwd h AtClose, fileName]\<rparr>" and
      e: "evs = before @ (WriteStream, CloseEvent) # after" and
      n: "\<forall>e. (WriteStream, ErrorEvent e) \<notin> set before"
      by (auto simp add: emit_all_Cons)
    from e have "ee # evs = (ee # before) @ (WriteStream, CloseEvent) # after" by simp
    moreover from n False ee have "\<forall>e. (WriteStream, ErrorEvent e) \<notin> set (ee # before)" by simp
    ultimately show ?thesis using d by blast
  qed
qed

lemma zip_errors_keep_promise:
  "wired fileName s \<Longrightarrow>
   promise (emit_all h s (map (\<lambda>e. (ZipFile, ErrorEvent e)) es)) = promise s \<and>
   uncaught (emit_all h s (map (\<lambda>e. (ZipFile, ErrorEvent e)) es)) = uncaught s @ es"
proof (induction es arbitrary: s)
  case Nil
  then show ?case by (simp add: emit_all_Nil)
next
  case (Cons e es)
  from Cons.IH [OF wired_emit [OF Cons.prems, where h = h and ee = "(ZipFile, ErrorEvent e)"]]
  show ?case
    by (simp add: emit_all_Cons emit_wired(3) [OF Cons.prems])
qed

lemma rejected_by_write_stream_only:
  assumes "wired fileName s" and "\<forall>e. promise s \<noteq> Rejected e"
    and "\<forall>e. (WriteStream, ErrorEvent e) \<notin> set evs"
  shows "\<forall>e. promise (emit_all h s evs) \<noteq> Rejected e"
  using assms
proof (induction evs arbitrary: s)
  case Nil
  then show ?case by (simp add: emit_all_Nil)
next
  case (Cons ee evs)
  obtain em ev where ee: "ee = (em, ev)" by (cases ee)
  note w = Cons.prems(1)
  have "\<forall>e. promise (emit h s ee) \<noteq> Rejected e"
  proof (cases "em = WriteStream")
    case True
    with Cons.prems(3) ee have "ev = CloseEvent" by (cases ev) auto
    with True ee Cons.prems(2) show ?thesis
      by (cases "promise s") (simp_all add: emit_wired(2) [OF w] resolve_def)
  next
    case False
    with ee Cons.prems(2) show ?thesis
      by (cases ev) (simp_all add: emit_wired(3,4) [OF w])
  qed
  from Cons.IH [OF wired_emit [OF w] this] Cons.prems(3) show ?case
    by (simp add: emit_all_Cons)
qed

text \<open>The state in which the callback of a successful scan leaves the call.\<close>

lemma archive_files_state:
  fixes h :: host and directoryPath :: string and files :: "string list" and s0 :: bundling
  defines "fileName \<equiv> generateRandomFilename (Math_random h) 15 @ ''.zip''"
  defines "s \<equiv> archive_files h directoryPath files s0"
  assumes "listeners s0 = []" and "created s0 = []" and "promise s0 = Pending"
    and "entries s0 = []" and "uncaught s0 = []" and "\<not> ended s0"
  shows "wired fileName s" and "created s = [fileName]" and "promise s = Pending"
    and "scanned s = scanned s0" and "disk s = disk s0"
    and "ended s \<longrightarrow> uncaught s = [] \<and>
           list_all2 (\<lambda>file (realPath, name). realPath = file \<and>
               yazl_entry_name (entryName (process_cwd h InCallback) directoryPath file) = Inr name)
             files (entries s)"
    and "\<not> ended s \<longrightarrow> uncaught s \<noteq> []"
    and "(\<forall>file \<in> set files. \<exists>name.
            yazl_entry_name (entryName (process_cwd h InCallback) directoryPath file) = Inr name)
         \<longrightarrow> ended s"
    and "\<not> ended s \<longrightarrow>
           length (entries s) < length files \<and>
           list_all2 (\<lambda>file (realPath, name). realPath = file \<and>
               yazl_entry_name (entryName (process_cwd h InCallback) directoryPath file) = Inr name)
             (take (length (entries s)) files) (entries s) \<and>
           (\<exists>e. uncaught s = [e] \<and>
              yazl_entry_name (entryName (process_cwd h InCallback) directoryPath
                                 (files ! length (entries s))) = Inl e)"
proof -
  define s3 where "s3 = on (pipe OutputStream WriteStream) OnClose (ResolveListener fileName)
              (on (pipe OutputStream WriteStream) OnError RejectListener
                (s0\<lparr>created := created s0 @ [fileName]\<rparr>))"
  obtain r s4 where res: "addFiles h directoryPath files 0 s3 = (r, s4)"
    by (cases "addFiles h directoryPath files 0 s3")
  from addFiles_result [OF res] obtain es where
    s4: "s4 = s3\<lparr>entries := entries s3 @ es\<rparr>" and
    c: "case r of
          None \<Rightarrow>
            list_all2 (\<lambda>file (realPath, name). realPath = file \<and>
                 yazl_entry_name (entryName (process_cwd h InCallback) directoryPath file) = Inr name)
              (drop 0 files) es
        | Some e \<Rightarrow>
            0 + length es < length files \<and>
            list_all2 (\<lambda>file (realPath, name). realPath = file \<and>
                 yazl_entry_name (entryName (process_cwd h InCallback) directoryPath file) = Inr name)
              (take (length es) (drop 0 files)) es \<and>
            yazl_entry_name (entryName (process_cwd h InCallback) directoryPath
                               (files ! (0 + length es))) = Inl e"
    by blast
  have s: "s = (case r of Some e \<Rightarrow> s4\<lparr>uncaught := uncaught s4 @ [e]\<rparr>
                         | None \<Rightarrow> s4\<lparr>ended := True\<rparr>)"
    using res by (simp add: s_def archive_files_def Let_def s3_def fileName_def)
  from assms(3-8) show "wired fileName s" and "created s = [fileName]" and "promise s = Pending"
    and "scanned s = scanned s0" and "disk s = disk s0"
    by (cases r; simp add: s s4 s3_def on_def wired_def pipe_def)+
  from assms(3-8) c show "ended s \<longrightarrow> uncaught s = [] \<and>
           list_all2 (\<lambda>file (realPath, name). realPath = file \<and>
               yazl_entry_name (entryName (process_cwd h InCallback) directoryPath file) = Inr name)
             files (entries s)"
    by (cases r) (simp_all add: s s4 s3_def on_def)
  from assms(3-8) show "\<not> ended s \<longrightarrow> uncaught s \<noteq> []"
    by (cases r) (simp_all add: s s4 s3_def on_def)
  show "(\<forall>file \<in> set files. \<exists>name.
            yazl_entry_name (entryName (process_cwd h InCallback) directoryPath file) = Inr name)
         \<longrightarrow> ended s"
  proof
    assume "\<forall>file \<in> set files. \<exists>name.
            yazl_entry_name (entryName (process_cwd h InCallback) directoryPath file) = Inr name"
    then have "fst (addFiles h directoryPath files 0 s3) = None"
      by (intro addFiles_accepted) simp
    with res have "r = None" by simp
    then show "ended s" by (simp add: s)
  qed
  from assms(3-8) c show "\<not> ended s \<longrightarrow>
           length (entries s) < length files \<and>
           list_all2 (\<lambda>file (realPath, name). realPath = file \<and>
               yazl_entry_name (entryName (process_cwd h InCallback) directoryPath file) = Inr name)
             (take (length (entries s)) files) (entries s) \<and>
           (\<exists>e. uncaught s = [e] \<and>
              yazl_entry_name (entryName (process_cwd h InCallback) directoryPath
                                 (files ! length (entries s))) = Inl e)"
    by (cases r) (simp_all add: s s4 s3_def on_def)
qed

lemma packageFileFromPath_cases:
  assumes "packageFileFromPath h p = Inr s0"
  obtains
    (single) "s0 = start\<lparr>promise := Resolved \<lparr>isTemporary = False, path = p\<rparr>\<rparr>"
  | (failed) e where "readdirr h p = Inl e" and "s0 = start\<lparr>scanned := [p], promise := Rejected e\<rparr>"
  | (archived) dirs files where "readdirr h p = Inr (dirs, files)"
      and "s0 = archive_files h p files (start\<lparr>scanned := [p]\<rparr>)"
  using assms
  by (auto simp add: packageFileFromPath_def Let_def resolve_def reject_def start_def
      split: sum.splits if_splits prod.splits)

lemma start_fields:
  "listeners (start\<lparr>scanned := x\<rparr>) = []" "created (start\<lparr>scanned := x\<rparr>) = []"
  "promise (start\<lparr>scanned := x\<rparr>) = Pending" "entries (start\<lparr>scanned := x\<rparr>) = []"
  "uncaught (start\<lparr>scanned := x\<rparr>) = []" "\<not> ended (start\<lparr>scanned := x\<rparr>)"
  by (simp_all add: start_def)

lemmas archived_state = archive_files_state [OF start_fields]


subsection \<open>The streaming, step by step\<close>

lemma read_errors_member:
  "(realPath, name) \<in> set es \<Longrightarrow> fs_read h realPath = Inl e \<Longrightarrow>
   e \<in> set (read_errors h es)"
  by (induction es) (auto simp add: read_errors_def)

lemma read_errors_readable:
  "(\<forall>entry \<in> set es. \<exists>content. fs_read h (fst entry) = Inr content) \<Longrightarrow> read_errors h es = []"
  by (induction es) (auto simp add: read_errors_def)

lemma members_of_Nil: "members_of h [] = []"
  by (simp add: members_of_def)

lemma members_of_Cons:
  "fs_read h realPath = Inr content \<Longrightarrow>
   members_of h ((realPath, name) # es) = (name, content) # members_of h es"
  by (simp add: members_of_def)


text \<open>A failed write rejects, and leaves everything else as it is.\<close>

lemma write_failed_wired:
  assumes "wired fileName s" and "promise s = Pending"
  shows "promise (write_failed h dest e s) = Rejected e"
  using assms
  by (simp add: write_failed_def Let_def emit_def wired_def name_of_def run_listener_def
      reject_def resolve_def)

lemma write_failed_fields:
  "entries (write_failed h dest e s) = entries s \<and> ended (write_failed h dest e s) = ended s \<and>
   created (write_failed h dest e s) = created s \<and> scanned (write_failed h dest e s) = scanned s \<and>
   listeners (write_failed h dest e s) = listeners s"
  by (simp add: write_failed_def Let_def emit_fields)

lemma write_failed_uncaught:
  "wired fileName s \<Longrightarrow> uncaught (write_failed h dest e s) = uncaught s"
  by (simp add: write_failed_def Let_def emit_def wired_def name_of_def run_listener_def)

lemma pump_fields:
  "entries (pump h dest es k s) = entries s \<and> ended (pump h dest es k s) = ended s \<and>
   created (pump h dest es k s) = created s \<and> scanned (pump h dest es k s) = scanned s \<and>
   listeners (pump h dest es k s) = listeners s"
proof (induction es arbitrary: k s)
  case Nil
  show ?case by (simp add: write_failed_fields emit_fields split: option.splits)
next
  case (Cons entry es)
  obtain realPath name where entry: "entry = (realPath, name)" by (cases entry)
  show ?case unfolding entry
    by (simp add: write_failed_fields Cons.IH split: sum.splits option.splits)
qed

lemma pump_uncaught:
  "wired fileName s \<Longrightarrow> uncaught (pump h dest es k s) = uncaught s"
proof (induction es arbitrary: k s)
  case Nil
  then have "wired fileName (s\<lparr>disk := finish_at dest (disk s)\<rparr>)" by (simp add: wired_disk)
  from emit_wired(2) [OF this] Nil show ?case
    by (simp add: write_failed_uncaught split: option.splits)
next
  case (Cons entry es)
  obtain realPath name where entry: "entry = (realPath, name)" by (cases entry)
  from Cons.prems have "\<And>d. wired fileName (s\<lparr>disk := d\<rparr>)" by (simp add: wired_disk)
  from Cons.IH [OF this] Cons.prems show ?case unfolding entry
    by (simp add: write_failed_uncaught split: sum.splits option.splits)
qed

text \<open>
  The pump resolves the promise only by writing every member, finalising the archive
  and closing the file.
\<close>

lemma pump_resolved:
  assumes "wired fileName s" and "promise s = Pending"
    and "disk s dest = Some (Written ms f c)"
    and "promise (pump h dest es k s) = Resolved d"
  shows "ended s \<and> (\<forall>entry \<in> set es. \<exists>content. fs_read h (fst entry) = Inr content) \<and>
         (\<forall>j. k \<le> j \<and> j \<le> k + length es \<longrightarrow> fs_write_error h dest j = None) \<and>
         disk (pump h dest es k s) = (disk s)(dest \<mapsto> Written (ms @ members_of h es) True True) \<and>
         d = \<lparr>isTemporary = True, path = posix_join [process_cwd h AtClose, fileName]\<rparr>"
  using assms
proof (induction es arbitrary: k s ms)
  case Nil
  note w = Nil.prems(1) and p = Nil.prems(2) and dk = Nil.prems(3) and r = Nil.prems(4)
  from r p have en: "ended s" by (cases "ended s") simp_all
  have ok: "fs_write_error h dest k = None"
  proof (cases "fs_write_error h dest k")
    case None
    then show ?thesis .
  next
    case (Some e)
    with en r write_failed_wired [OF w p, of h dest e] show ?thesis by simp
  qed
  from w have w': "wired fileName (s\<lparr>disk := finish_at dest (disk s)\<rparr>)" by (simp add: wired_disk)
  from en ok have run: "pump h dest [] k s =
      emit h (s\<lparr>disk := finish_at dest (disk s)\<rparr>) (WriteStream, CloseEvent)"
    by simp
  from r p have "d = \<lparr>isTemporary = True, path = posix_join [process_cwd h AtClose, fileName]\<rparr>"
    unfolding run emit_wired(2) [OF w'] by (simp add: resolve_def)
  moreover from dk have "disk (pump h dest [] k s) = (disk s)(dest \<mapsto> Written ms True True)"
    unfolding run emit_wired(2) [OF w'] by (simp add: finish_at_def)
  ultimately show ?case using en ok by (auto simp add: members_of_Nil dest: le_antisym)
next
  case (Cons entry es)
  note w = Cons.prems(1) and p = Cons.prems(2) and dk = Cons.prems(3) and r = Cons.prems(4)
  obtain realPath name where entry: "entry = (realPath, name)" by (cases entry)
  obtain content where rd: "fs_read h realPath = Inr content"
  proof (cases "fs_read h realPath")
    case (Inl e)
    with r p entry show ?thesis by simp
  next
    case (Inr content)
    with that show ?thesis .
  qed
  have ok: "fs_write_error h dest k = None"
  proof (cases "fs_write_error h dest k")
    case None
    then show ?thesis .
  next
    case (Some e)
    with rd r entry write_failed_wired [OF w p, of h dest e] show ?thesis by simp
  qed
  let ?s = "s\<lparr>disk := append_at dest (name, content) (disk s)\<rparr>"
  from rd ok entry have run: "pump h dest (entry # es) k s = pump h dest es (k + 1) ?s"
    by simp
  from w have w': "wired fileName ?s" by (simp add: wired_disk)
  from p have p': "promise ?s = Pending" by simp
  from dk have dk': "disk ?s dest = Some (Written (ms @ [(name, content)]) f c)"
    by (simp add: append_at_def)
  from r have r': "promise (pump h dest es (k + 1) ?s) = Resolved d" unfolding run .
  note ih = Cons.IH [OF w' p' dk' r']
  from ih have en: "ended s"
    and rest: "\<forall>entry \<in> set es. \<exists>content. fs_read h (fst entry) = Inr content"
    and wr: "\<forall>j. k + 1 \<le> j \<and> j \<le> k + 1 + length es \<longrightarrow> fs_write_error h dest j = None"
    and d: "d = \<lparr>isTemporary = True, path = posix_join [process_cwd h AtClose, fileName]\<rparr>"
    by simp_all
  from ih have dsk: "disk (pump h dest es (k + 1) ?s) =
        (disk ?s)(dest \<mapsto> Written ((ms @ [(name, content)]) @ members_of h es) True True)"
    by blast
  from rd rest entry have all: "\<forall>entry \<in> set (entry # es). \<exists>content. fs_read h (fst entry) = Inr content"
    by simp
  have writes: "\<forall>j. k \<le> j \<and> j \<le> k + length (entry # es) \<longrightarrow> fs_write_error h dest j = None"
  proof (intro allI impI)
    fix j
    assume j: "k \<le> j \<and> j \<le> k + length (entry # es)"
    show "fs_write_error h dest j = None"
    proof (cases "j = k")
      case True
      with ok show ?thesis by simp
    next
      case False
      with j have "k + 1 \<le> j \<and> j \<le> k + 1 + length es" by simp
      with wr show ?thesis by blast
    qed
  qed
  from dsk dk have "disk (pump h dest (entry # es) k s) =
      (disk s)(dest \<mapsto> Written (ms @ members_of h (entry # es)) True True)"
    unfolding run by (simp add: append_at_def entry members_of_Cons [OF rd])
  with en all writes d show ?case by blast
qed


text \<open>
  With a source that cannot be read the pump never finishes: while no write fails the
  promise stays pending and the file stays open, not finalised.
\<close>

lemma pump_unreadable:
  assumes "wired fileName s" and "promise s = Pending"
    and "disk s dest = Some (Written ms False False)"
    and "\<exists>entry \<in> set es. \<exists>e. fs_read h (fst entry) = Inl e"
    and "\<forall>j. fs_write_error h dest j = None"
  shows "promise (pump h dest es k s) = Pending \<and>
         (\<exists>ms'. disk (pump h dest es k s) dest = Some (Written ms' False False))"
  using assms
proof (induction es arbitrary: k s ms)
  case Nil
  then show ?case by simp
next
  case (Cons entry es)
  obtain realPath name where entry: "entry = (realPath, name)" by (cases entry)
  show ?case
  proof (cases "fs_read h realPath")
    case (Inl e)
    with Cons.prems(2,3) entry show ?thesis by simp
  next
    case (Inr content)
    let ?s = "s\<lparr>disk := append_at dest (name, content) (disk s)\<rparr>"
    from Inr Cons.prems(5) entry
    have run: "pump h dest (entry # es) k s = pump h dest es (k + 1) ?s"
      by simp
    from Cons.prems(1) have w': "wired fileName ?s" by (simp add: wired_disk)
    from Cons.prems(2) have p': "promise ?s = Pending" by simp
    from Cons.prems(3) have dk': "disk ?s dest = Some (Written (ms @ [(name, content)]) False False)"
      by (simp add: append_at_def)
    from Cons.prems(4) Inr entry have un: "\<exists>entry \<in> set es. \<exists>e. fs_read h (fst entry) = Inl e"
      by auto
    from Cons.IH [OF w' p' dk' un Cons.prems(5)] show ?thesis unfolding run .
  qed
qed

text \<open>The streaming of a directory whose callback has run.\<close>

lemma stream_wired:
  fixes h :: host and fileName :: string and s0 :: bundling
  assumes "wired fileName s0" and "created s0 = [fileName]"
  defines "dest \<equiv> posix_resolve (process_cwd h AtOpen) fileName"
  defines "s1 \<equiv> emit_all h s0 (map (\<lambda>e. (ZipFile, ErrorEvent e)) (read_errors h (entries s0)))"
  shows "stream h s0 =
           (case fs_open_error h dest of
              Some e \<Rightarrow> write_failed h dest e s1
            | None \<Rightarrow> pump h dest (entries s0) 0
                        (s1\<lparr>disk := (disk s1)(dest \<mapsto> Written [] False False)\<rparr>))"
    and "wired fileName s1" and "promise s1 = promise s0"
    and "uncaught s1 = uncaught s0 @ read_errors h (entries s0)"
    and "entries s1 = entries s0" and "ended s1 = ended s0" and "disk s1 = disk s0"
    and "created s1 = created s0" and "scanned s1 = scanned s0"
proof -
  from assms(2) show "stream h s0 =
           (case fs_open_error h dest of
              Some e \<Rightarrow> write_failed h dest e s1
            | None \<Rightarrow> pump h dest (entries s0) 0
                        (s1\<lparr>disk := (disk s1)(dest \<mapsto> Written [] False False)\<rparr>))"
    unfolding dest_def s1_def by (simp add: stream_def Let_def)
  from assms(1) show "wired fileName s1" unfolding s1_def by (rule wired_emit_all)
  from zip_errors_keep_promise [OF assms(1)]
  show "promise s1 = promise s0" and "uncaught s1 = uncaught s0 @ read_errors h (entries s0)"
    by (simp_all add: s1_def)
  from emit_all_fields [of h s0]
  show "entries s1 = entries s0" and "ended s1 = ended s0" and "disk s1 = disk s0"
    and "created s1 = created s0" and "scanned s1 = scanned s0"
    by (simp_all add: s1_def)
qed

lemma stream_fields:
  "entries (stream h s) = entries s \<and> ended (stream h s) = ended s \<and>
   created (stream h s) = created s \<and> scanned (stream h s) = scanned s \<and>
   listeners (stream h s) = listeners s"
  by (simp add: stream_def Let_def pump_fields write_failed_fields emit_all_fields
      split: list.splits option.splits)

lemma stream_resolved:
  fixes h :: host and fileName :: string and s0 :: bundling
  assumes "wired fileName s0" and "created s0 = [fileName]" and "promise s0 = Pending"
    and "promise (stream h s0) = Resolved d"
  defines "dest \<equiv> posix_resolve (process_cwd h AtOpen) fileName"
  shows "fs_open_error h dest = None \<and> ended s0 \<and>
         (\<forall>entry \<in> set (entries s0). \<exists>content. fs_read h (fst entry) = Inr content) \<and>
         (\<forall>j. j \<le> length (entries s0) \<longrightarrow> fs_write_error h dest j = None) \<and>
         disk (stream h s0) = (disk s0)(dest \<mapsto> Written (members_of h (entries s0)) True True) \<and>
         uncaught (stream h s0) = uncaught s0 \<and>
         d = \<lparr>isTemporary = True, path = posix_join [process_cwd h AtClose, fileName]\<rparr>"
proof -
  define s1 where
    "s1 = emit_all h s0 (map (\<lambda>e. (ZipFile, ErrorEvent e)) (read_errors h (entries s0)))"
  note sw = stream_wired [OF assms(1,2), of h, folded s1_def dest_def]
  from assms(3) sw(3) have p1: "promise s1 = Pending" by simp
  have op: "fs_open_error h dest = None"
  proof (cases "fs_open_error h dest")
    case None
    then show ?thesis .
  next
    case (Some e)
    with assms(4) sw(1) write_failed_wired [OF sw(2) p1, of h dest e] show ?thesis by simp
  qed
  let ?s2 = "s1\<lparr>disk := (disk s1)(dest \<mapsto> Written [] False False)\<rparr>"
  from op sw(1) have run: "stream h s0 = pump h dest (entries s0) 0 ?s2" by simp
  from sw(2) have w2: "wired fileName ?s2" by (simp add: wired_disk)
  from p1 have p2: "promise ?s2 = Pending" by simp
  have d2: "disk ?s2 dest = Some (Written [] False False)" by simp
  from assms(4) have r: "promise (pump h dest (entries s0) 0 ?s2) = Resolved d" unfolding run .
  from pump_resolved [OF w2 p2 d2 r] sw(6)
  have en: "ended s0"
    and rd: "\<forall>entry \<in> set (entries s0). \<exists>content. fs_read h (fst entry) = Inr content"
    and wr: "\<forall>j. j \<le> length (entries s0) \<longrightarrow> fs_write_error h dest j = None"
    and dk: "disk (pump h dest (entries s0) 0 ?s2) =
        (disk ?s2)(dest \<mapsto> Written ([] @ members_of h (entries s0)) True True)"
    and d: "d = \<lparr>isTemporary = True, path = posix_join [process_cwd h AtClose, fileName]\<rparr>"
    by simp_all
  from dk sw(7) have dk': "disk (stream h s0) =
      (disk s0)(dest \<mapsto> Written (members_of h (entries s0)) True True)"
    unfolding run by simp
  from read_errors_readable [OF rd] sw(4) have "uncaught s1 = uncaught s0" by simp
  with pump_uncaught [OF w2, of h dest "entries s0" 0]
  have "uncaught (stream h s0) = uncaught s0" unfolding run by simp
  with op en rd wr dk' d show ?thesis by blast
qed


lemma stream_unreadable:
  assumes "wired fileName s0" and "created s0 = [fileName]" and "promise s0 = Pending"
    and "(realPath, name) \<in> set (entries s0)" and "fs_read h realPath = Inl e"
    and "fs_open_error h (posix_resolve (process_cwd h AtOpen) fileName) = None"
    and "\<forall>j. fs_write_error h (posix_resolve (process_cwd h AtOpen) fileName) j = None"
  shows "promise (stream h s0) = Pending \<and>
         uncaught (stream h s0) = uncaught s0 @ read_errors h (entries s0) \<and>
         e \<in> set (read_errors h (entries s0)) \<and>
         (\<exists>ms. disk (stream h s0) (posix_resolve (process_cwd h AtOpen) fileName) =
                 Some (Written ms False False))"
proof -
  define dest where "dest = posix_resolve (process_cwd h AtOpen) fileName"
  define s1 where
    "s1 = emit_all h s0 (map (\<lambda>e. (ZipFile, ErrorEvent e)) (read_errors h (entries s0)))"
  note sw = stream_wired [OF assms(1,2), of h, folded s1_def dest_def]
  let ?s2 = "s1\<lparr>disk := (disk s1)(dest \<mapsto> Written [] False False)\<rparr>"
  from assms(6) sw(1) have run: "stream h s0 = pump h dest (entries s0) 0 ?s2"
    by (simp add: dest_def)
  from sw(2) have w2: "wired fileName ?s2" by (simp add: wired_disk)
  from assms(3) sw(3) have p2: "promise ?s2 = Pending" by simp
  have d2: "disk ?s2 dest = Some (Written [] False False)" by simp
  from assms(4,5) have un: "\<exists>entry \<in> set (entries s0). \<exists>e. fs_read h (fst entry) = Inl e"
    by force
  from assms(7) have wr: "\<forall>j. fs_write_error h dest j = None" by (simp add: dest_def)
  from pump_unreadable [OF w2 p2 d2 un wr, of 0]
  have "promise (stream h s0) = Pending"
    and "\<exists>ms. disk (stream h s0) dest = Some (Written ms False False)"
    unfolding run by simp_all
  moreover from pump_uncaught [OF w2, of h dest "entries s0" 0] sw(4)
  have "uncaught (stream h s0) = uncaught s0 @ read_errors h (entries s0)"
    unfolding run by simp
  moreover from read_errors_member [OF assms(4,5)] have "e \<in> set (read_errors h (entries s0))" .
  ultimately show ?thesis unfolding dest_def by simp
qed

lemma members_of_readable:
  "\<forall>entry \<in> set es. \<exists>content. fs_read h (fst entry) = Inr content \<Longrightarrow>
   length (members_of h es) = length es \<and> map fst (members_of h es) = map snd es"
  by (induction es) (auto simp add: members_of_def)



subsection \<open>The example hosts, evaluated\<close>

lemmas path_defs = posix_dirname_def posix_relative_def posix_resolve_parts_def posix_isAbsolute_def
  posix_join_def posix_normalize_def slash_def backslash_def entryName_def Let_def

lemma example_fields:
  "process_cwd example_host m = ''/home/u/proj''"
  "lstatSync (fs_nodes example_host) ''/p/root'' = Inr StatsDirectory"
  "readdirr example_host ''/p/root'' =
     Inr ([''/p/root'', ''/p/root/sub''], [''/p/root/a.txt'', ''/p/root/sub/b.txt''])"
  "fs_read example_host ''/p/root/a.txt'' = Inr [1]"
  "fs_read example_host ''/p/root/sub/b.txt'' = Inr [2, 3]"
  "fs_open_error example_host f = None"
  "fs_write_error example_host f k = None"
  "lstatSync (fs_nodes example_host) ''/p/empty'' = Inr StatsDirectory"
  "readdirr example_host ''/p/empty'' = Inr ([''/p/empty''], [])"
  by (simp_all add: example_host_def lstatSync_def)

lemma example_deleted_fields:
  "process_cwd example_host_deleted m = ''/home/u/proj''"
  "lstatSync (fs_nodes example_host_deleted) ''/p/root'' = Inr StatsDirectory"
  "readdirr example_host_deleted ''/p/root'' =
     Inr ([''/p/root'', ''/p/root/sub''], [''/p/root/a.txt'', ''/p/root/sub/b.txt''])"
  "fs_read example_host_deleted ''/p/root/a.txt'' = Inr [1]"
  "fs_read example_host_deleted ''/p/root/sub/b.txt'' = Inl (HostError ''ENOENT: open'')"
  "fs_open_error example_host_deleted f = None"
  "fs_write_error example_host_deleted f k = None"
  by (simp_all add: example_host_deleted_def example_host_def lstatSync_def)

lemma example_moved_fields:
  "process_cwd example_host_moved InCallback = ''/home/u/proj''"
  "process_cwd example_host_moved AtOpen = ''/home/u/proj''"
  "process_cwd example_host_moved AtClose = ''/tmp''"
  "lstatSync (fs_nodes example_host_moved) ''/p/root'' = Inr StatsDirectory"
  "readdirr example_host_moved ''/p/root'' =
     Inr ([''/p/root'', ''/p/root/sub''], [''/p/root/a.txt'', ''/p/root/sub/b.txt''])"
  "fs_read example_host_moved ''/p/root/a.txt'' = Inr [1]"
  "fs_read example_host_moved ''/p/root/sub/b.txt'' = Inr [2, 3]"
  "fs_open_error example_host_moved f = None"
  "fs_write_error example_host_moved f k = None"
  by (simp_all add: example_host_moved_def example_host_def lstatSync_def)

lemma example_names:
  "generateRandomFilename (Math_random example_host_deleted) 15 = ''Qffffffffffffff''"
  "generateRandomFilename (Math_random example_host_moved) 15 = ''Qffffffffffffff''"
proof -
  have "Math_random example_host_deleted = Math_random example_host"
    and "Math_random example_host_moved = Math_random example_host"
    by (simp_all add: example_host_deleted_def example_host_moved_def)
  then show "generateRandomFilename (Math_random example_host_deleted) 15 = ''Qffffffffffffff''"
    and "generateRandomFilename (Math_random example_host_moved) 15 = ''Qffffffffffffff''"
    by (simp_all add: example_name)
qed

lemma example_entries:
  "entryName ''/home/u/proj'' ''/p/root'' ''/p/root/a.txt'' = ''root/a.txt''"
  "entryName ''/home/u/proj'' ''/p/root'' ''/p/root/sub/b.txt'' = ''root/sub/b.txt''"
  by (simp_all add: path_defs)

lemma example_stored:
  "yazl_entry_name ''root/a.txt'' = Inr ''root/a.txt''"
  "yazl_entry_name ''root/sub/b.txt'' = Inr ''root/sub/b.txt''"
  by (simp_all add: yazl_entry_name_def validateMetadataPath_def is_letter_def backslash_def
      utf8_length_def)

lemma example_paths:
  "posix_join [''/home/u/proj'', ''Qffffffffffffff.zip''] = ''/home/u/proj/Qffffffffffffff.zip''"
  "posix_join [''/tmp'', ''Qffffffffffffff.zip''] = ''/tmp/Qffffffffffffff.zip''"
  "posix_resolve ''/home/u/proj'' ''Qffffffffffffff.zip'' = ''/home/u/proj/Qffffffffffffff.zip''"
  by (simp_all add: path_defs posix_resolve_def)

lemma example_root_call:
  "packageFileFromPath example_host ''/p/root'' =
     Inr \<lparr>promise = Pending,
          listeners = [(WriteStream, OnError, RejectListener),
                       (WriteStream, OnClose, ResolveListener ''Qffffffffffffff.zip'')],
          scanned = [''/p/root''], created = [''Qffffffffffffff.zip''],
          entries = [(''/p/root/a.txt'', ''root/a.txt''),
                     (''/p/root/sub/b.txt'', ''root/sub/b.txt'')],
          ended = True, uncaught = [], disk = Map.empty\<rparr>"
  by (simp add: packageFileFromPath_def archive_files_def example_name example_fields
      addFiles.simps addFile_def example_entries example_stored Let_def on_def pipe_def
      start_def isDirectory_def)

lemma example_root_run:
  "bundle_run example_host ''/p/root'' =
     Inr \<lparr>promise = Resolved \<lparr>isTemporary = True, path = ''/home/u/proj/Qffffffffffffff.zip''\<rparr>,
          listeners = [(WriteStream, OnError, RejectListener),
                       (WriteStream, OnClose, ResolveListener ''Qffffffffffffff.zip'')],
          scanned = [''/p/root''], created = [''Qffffffffffffff.zip''],
          entries = [(''/p/root/a.txt'', ''root/a.txt''),
                     (''/p/root/sub/b.txt'', ''root/sub/b.txt'')],
          ended = True, uncaught = [],
          disk = [''/home/u/proj/Qffffffffffffff.zip'' \<mapsto>
                    Written [(''root/a.txt'', [1]), (''root/sub/b.txt'', [2, 3])] True True]\<rparr>"
  by (simp add: bundle_run_def example_root_call stream_def read_errors_def
      emit_all_def emit_def name_of_def run_listener_def resolve_def example_fields example_paths
      append_at_def finish_at_def)

lemma example_moved_run:
  "bundle_run example_host_moved ''/p/root'' =
     Inr \<lparr>promise = Resolved \<lparr>isTemporary = True, path = ''/tmp/Qffffffffffffff.zip''\<rparr>,
          listeners = [(WriteStream, OnError, RejectListener),
                       (WriteStream, OnClose, ResolveListener ''Qffffffffffffff.zip'')],
          scanned = [''/p/root''], created = [''Qffffffffffffff.zip''],
          entries = [(''/p/root/a.txt'', ''root/a.txt''),
                     (''/p/root/sub/b.txt'', ''root/sub/b.txt'')],
          ended = True, uncaught = [],
          disk = [''/home/u/proj/Qffffffffffffff.zip'' \<mapsto>
                    Written [(''root/a.txt'', [1]), (''root/sub/b.txt'', [2, 3])] True True]\<rparr>"
  by (simp add: bundle_run_def packageFileFromPath_def archive_files_def example_names
      addFiles.simps addFile_def example_entries example_stored Let_def on_def pipe_def
      start_def isDirectory_def stream_def read_errors_def
      emit_all_def emit_def name_of_def run_listener_def resolve_def example_moved_fields
      example_paths append_at_def finish_at_def)

lemma example_deleted_run:
  "bundle_run example_host_deleted ''/p/root'' =
     Inr \<lparr>promise = Pending,
          listeners = [(WriteStream, OnError, RejectListener),
                       (WriteStream, OnClose, ResolveListener ''Qffffffffffffff.zip'')],
          scanned = [''/p/root''], created = [''Qffffffffffffff.zip''],
          entries = [(''/p/root/a.txt'', ''root/a.txt''),
                     (''/p/root/sub/b.txt'', ''root/sub/b.txt'')],
          ended = True, uncaught = [HostError ''ENOENT: open''],
          disk = [''/home/u/proj/Qffffffffffffff.zip'' \<mapsto>
                    Written [(''root/a.txt'', [1])] False False]\<rparr>"
  by (simp add: bundle_run_def packageFileFromPath_def archive_files_def example_names
      addFiles.simps addFile_def example_entries example_stored Let_def on_def pipe_def
      start_def isDirectory_def stream_def read_errors_def
      emit_all_def emit_def name_of_def run_listener_def resolve_def example_deleted_fields
      example_paths append_at_def finish_at_def)


lemma example_refused_name:
  "entryName ''/home/u/proj'' ''/p/root'' (''/p/root/sub/b'' @ [backslash]) = ''root/sub/b/''"
  "yazl_entry_name ''root/sub/b/'' = Inl (HostError ''file path cannot end with /'')"
  by (simp_all add: path_defs yazl_entry_name_def validateMetadataPath_def is_letter_def)



subsection \<open>A temporary descriptor and the file on the disk\<close>

text \<open>
  Claim C3 as it is stated fails on the code: the write stream opens the relative name
  \<open>fileName\<close>, which the file system resolves against the working directory of that
  moment, and the \<open>close\<close> listener builds the path of the descriptor from
  \<open>process.cwd()\<close>, read later. On a host where the working directory has been
  changed in between, from \<open>/home/u/proj\<close> to \<open>/tmp\<close>, the promise is resolved
  with a temporary descriptor whose path names no file: the archive, complete and
  closed, lies in \<open>/home/u/proj\<close>.
\<close>

theorem temporary_path_counterexample:
  "\<exists>s. bundle_run example_host_moved ''/p/root'' = Inr s \<and>
       promise s = Resolved \<lparr>isTemporary = True, path = ''/tmp/Qffffffffffffff.zip''\<rparr> \<and>
       disk s ''/tmp/Qffffffffffffff.zip'' = None \<and>
       disk s ''/home/u/proj/Qffffffffffffff.zip'' =
         Some (Written [(''root/a.txt'', [1]), (''root/sub/b.txt'', [2, 3])] True True)"
  by (simp add: example_moved_run)

text \<open>
  Claim C3, as amended. A promise resolved with a descriptor whose \<open>isTemporary\<close> is
  true was resolved by the \<open>close\<close> event of the write stream of the destination,
  and no \<open>error\<close> event of that stream came before it: for every sequence of events.
  In the streaming of the archive, when the promise is resolved with such a
  descriptor, the file that the write stream opened, \<open>fileName\<close> resolved against
  the working directory at the opening, exists on the disk, finalised and closed, with
  one member for each entry of the archive, every source having been read and no
  write having failed. The path of the descriptor is \<open>fileName\<close> joined to the
  working directory at the \<open>close\<close> event; it is the path of that file when the
  working directory is absolute and the same at both moments.
\<close>

theorem temporary_file_closed_before_resolve:
  assumes "packageFileFromPath h filePath = Inr s0"
  shows "(\<forall>evs d. promise (emit_all h s0 evs) = Resolved d \<and> isTemporary d \<longrightarrow>
           (\<exists>fileName before after.
              created s0 = [fileName] \<and>
              path d = posix_join [process_cwd h AtClose, fileName] \<and>
              evs = before @ (WriteStream, CloseEvent) # after \<and>
              (\<forall>e. (WriteStream, ErrorEvent e) \<notin> set before))) \<and>
         (\<forall>s d. bundle_run h filePath = Inr s \<and> promise s = Resolved d \<and> isTemporary d \<longrightarrow>
           (\<exists>fileName w.
              created s = [fileName] \<and>
              disk s (posix_resolve (process_cwd h AtOpen) fileName) = Some w \<and>
              finished w \<and> closed w \<and>
              members w = members_of h (entries s) \<and>
              length (members w) = length (entries s) \<and>
              map fst (members w) = map snd (entries s) \<and>
              ended s \<and> uncaught s = [] \<and>
              (\<forall>entry \<in> set (entries s). \<exists>content. fs_read h (fst entry) = Inr content) \<and>
              fs_open_error h (posix_resolve (process_cwd h AtOpen) fileName) = None \<and>
              (\<forall>j. j \<le> length (entries s) \<longrightarrow>
                 fs_write_error h (posix_resolve (process_cwd h AtOpen) fileName) j = None) \<and>
              path d = posix_join [process_cwd h AtClose, fileName] \<and>
              (posix_isAbsolute (process_cwd h AtClose) \<longrightarrow>
                 path d = posix_resolve (process_cwd h AtClose) fileName) \<and>
              (posix_isAbsolute (process_cwd h AtClose) \<and>
               process_cwd h AtClose = process_cwd h AtOpen \<longrightarrow>
                 disk s (path d) = Some w)))"
proof -
  have general: "\<exists>fileName before after.
              created s0 = [fileName] \<and>
              path d = posix_join [process_cwd h AtClose, fileName] \<and>
              evs = before @ (WriteStream, CloseEvent) # after \<and>
              (\<forall>e. (WriteStream, ErrorEvent e) \<notin> set before)"
    if r: "promise (emit_all h s0 evs) = Resolved d" and t: "isTemporary d" for evs d
    using assms
  proof (cases rule: packageFileFromPath_cases)
    case single
    then have "promise (emit_all h s0 evs) = Resolved \<lparr>isTemporary = False, path = filePath\<rparr>"
      by (simp add: emit_all_settled)
    with r t show ?thesis by auto
  next
    case (failed e)
    then have "promise (emit_all h s0 evs) = Rejected e"
      by (simp add: emit_all_settled)
    with r show ?thesis by simp
  next
    case (archived dirs files)
    let ?fileName = "generateRandomFilename (Math_random h) 15 @ ''.zip''"
    from archived(2) have w: "wired ?fileName s0" and c: "created s0 = [?fileName]"
      and p: "promise s0 = Pending"
      by (simp_all add: archived_state)
    from resolved_after_close [OF w p r] c show ?thesis by auto
  qed
  have streamed: "\<exists>fileName w.
              created s = [fileName] \<and>
              disk s (posix_resolve (process_cwd h AtOpen) fileName) = Some w \<and>
              finished w \<and> closed w \<and>
              members w = members_of h (entries s) \<and>
              length (members w) = length (entries s) \<and>
              map fst (members w) = map snd (entries s) \<and>
              ended s \<and> uncaught s = [] \<and>
              (\<forall>entry \<in> set (entries s). \<exists>content. fs_read h (fst entry) = Inr content) \<and>
              fs_open_error h (posix_resolve (process_cwd h AtOpen) fileName) = None \<and>
              (\<forall>j. j \<le> length (entries s) \<longrightarrow>
                 fs_write_error h (posix_resolve (process_cwd h AtOpen) fileName) j = None) \<and>
              path d = posix_join [process_cwd h AtClose, fileName] \<and>
              (posix_isAbsolute (process_cwd h AtClose) \<longrightarrow>
                 path d = posix_resolve (process_cwd h AtClose) fileName) \<and>
              (posix_isAbsolute (process_cwd h AtClose) \<and>
               process_cwd h AtClose = process_cwd h AtOpen \<longrightarrow>
                 disk s (path d) = Some w)"
    if b: "bundle_run h filePath = Inr s" and r: "promise s = Resolved d" and t: "isTemporary d"
    for s d
  proof -
    from b assms have s: "s = stream h s0" by (simp add: bundle_run_def)
    from assms show ?thesis
    proof (cases rule: packageFileFromPath_cases)
      case single
      with s have "promise s = Resolved \<lparr>isTemporary = False, path = filePath\<rparr>"
        by (simp add: stream_def start_def)
      with r t show ?thesis by auto
    next
      case (failed e)
      with s have "promise s = Rejected e" by (simp add: stream_def start_def)
      with r show ?thesis by simp
    next
      case (archived dirs files)
      let ?fileName = "generateRandomFilename (Math_random h) 15 @ ''.zip''"
      let ?dest = "posix_resolve (process_cwd h AtOpen) ?fileName"
      let ?w = "Written (members_of h (entries s0)) True True"
      from archived(2) have w: "wired ?fileName s0" and c: "created s0 = [?fileName]"
        and p: "promise s0 = Pending"
        by (simp_all add: archived_state)
      from archived(2) have u0: "ended s0 \<longrightarrow> uncaught s0 = []"
        using archived_state(6) [of h filePath files "[filePath]"] by simp
      from r s have r0: "promise (stream h s0) = Resolved d" by simp
      from stream_resolved [OF w c p r0]
      have op: "fs_open_error h ?dest = None" and en: "ended s0"
        and rd: "\<forall>entry \<in> set (entries s0). \<exists>content. fs_read h (fst entry) = Inr content"
        and wr: "\<forall>j. j \<le> length (entries s0) \<longrightarrow> fs_write_error h ?dest j = None"
        and un: "uncaught (stream h s0) = uncaught s0"
        and d: "d = \<lparr>isTemporary = True, path = posix_join [process_cwd h AtClose, ?fileName]\<rparr>"
        by simp_all
      from stream_resolved [OF w c p r0]
      have dk: "disk (stream h s0) = (disk s0)(?dest \<mapsto> ?w)" by blast
      from stream_fields [of h s0] s
      have same: "entries s = entries s0" "ended s = ended s0" "created s = created s0"
        by simp_all
      from dk s have written: "disk s ?dest = Some ?w" by simp
      from d have pd: "path d = posix_join [process_cwd h AtClose, ?fileName]" by simp
      have seg: "segment ?fileName" by (rule temporary_name_segment)
      from seg pd have opened: "posix_isAbsolute (process_cwd h AtClose) \<longrightarrow>
          path d = posix_resolve (process_cwd h AtClose) ?fileName"
        by (simp add: posix_join_resolve)
      with written have there: "posix_isAbsolute (process_cwd h AtClose) \<and>
               process_cwd h AtClose = process_cwd h AtOpen \<longrightarrow> disk s (path d) = Some ?w"
        by auto
      from members_of_readable [OF rd]
      have len: "length (members ?w) = length (entries s0)"
        and names: "map fst (members ?w) = map snd (entries s0)"
        by simp_all
      from un u0 en s have u: "uncaught s = []" by simp
      have "created s = [?fileName] \<and>
              disk s ?dest = Some ?w \<and>
              finished ?w \<and> closed ?w \<and>
              members ?w = members_of h (entries s) \<and>
              length (members ?w) = length (entries s) \<and>
              map fst (members ?w) = map snd (entries s) \<and>
              ended s \<and> uncaught s = [] \<and>
              (\<forall>entry \<in> set (entries s). \<exists>content. fs_read h (fst entry) = Inr content) \<and>
              fs_open_error h ?dest = None \<and>
              (\<forall>j. j \<le> length (entries s) \<longrightarrow> fs_write_error h ?dest j = None) \<and>
              path d = posix_join [process_cwd h AtClose, ?fileName] \<and>
              (posix_isAbsolute (process_cwd h AtClose) \<longrightarrow>
                 path d = posix_resolve (process_cwd h AtClose) ?fileName) \<and>
              (posix_isAbsolute (process_cwd h AtClose) \<and>
               process_cwd h AtClose = process_cwd h AtOpen \<longrightarrow>
                 disk s (path d) = Some ?w)"
        using c written len names en u rd op wr pd opened there unfolding same by simp
      then show ?thesis by (intro exI)
    qed
  qed
  from general streamed show ?thesis by blast
qed

theorem temporary_file_closed_before_resolve_witness:
  "\<exists>s d w. bundle_run example_host ''/p/root'' = Inr s \<and> promise s = Resolved d \<and>
     isTemporary d \<and> created s = [''Qffffffffffffff.zip''] \<and>
     path d = ''/home/u/proj/Qffffffffffffff.zip'' \<and>
     disk s (path d) = Some w \<and> finished w \<and> closed w \<and>
     members w = [(''root/a.txt'', [1]), (''root/sub/b.txt'', [2, 3])] \<and>
     ended s \<and> uncaught s = []"
  using temporary_file_closed_before_resolve [OF example_root_call]
  by (simp add: example_root_run)

subsection \<open>The name of the temporary archive\<close>

text \<open>
  Claim C8. When \<open>Math.random()\<close> keeps its contract, a double \<open>r\<close> with
  \<open>0 \<le> r < 1\<close>, every index \<open>Math.floor(Math.random() * validChar.length)\<close>,
  computed on doubles, lies in \<open>0 \<dots> 61\<close>, and \<open>generateRandomFilename(15)\<close>
  returns exactly 15 characters, the characters of \<open>validChar\<close> at those indices;
  \<open>validChar\<close> holds the 62 distinct characters \<open>A-Z\<close>, \<open>a-z\<close>, \<open>0-9\<close>. With
  the suffix \<open>.zip\<close> that the caller appends the name matches
  \<open>^[A-Za-z0-9]{15}\.zip$\<close>; the file opened for writing has that name, and the path
  of a temporary descriptor is \<open>path.join(process.cwd(), fileName)\<close>.
\<close>

theorem temporary_name_pattern:
  assumes "\<forall>k<15. is_double (Math_random h k) \<and> 0 \<le> Math_random h k \<and> Math_random h k < 1"
  shows "(\<forall>k<15. 0 \<le> \<lfloor>binary64 (Math_random h k * real (length validChar))\<rfloor> \<and>
                  \<lfloor>binary64 (Math_random h k * real (length validChar))\<rfloor> < 62) \<and>
         generateRandomFilename (Math_random h) 15 =
           map (\<lambda>k. validChar ! nat \<lfloor>binary64 (Math_random h k * real (length validChar))\<rfloor>)
             [0..<15] \<and>
         length (generateRandomFilename (Math_random h) 15) = 15 \<and>
         set (generateRandomFilename (Math_random h) 15) \<subseteq> set validChar \<and>
         length validChar = 62 \<and> distinct validChar \<and> list_all is_alphanumeric validChar \<and>
         matches_temp_pattern (generateRandomFilename (Math_random h) 15 @ ''.zip'') \<and>
         (\<forall>s d. bundle_run h filePath = Inr s \<and> promise s = Resolved d \<and> isTemporary d \<longrightarrow>
            created s = [generateRandomFilename (Math_random h) 15 @ ''.zip''] \<and>
            path d = posix_join [process_cwd h AtClose,
                                 generateRandomFilename (Math_random h) 15 @ ''.zip''])"
proof -
  let ?name = "generateRandomFilename (Math_random h) 15"
  let ?index = "\<lambda>k. \<lfloor>binary64 (Math_random h k * real (length validChar))\<rfloor>"
  have idx: "\<forall>k<15. 0 \<le> ?index k \<and> ?index k < 62"
  proof (intro allI impI)
    fix k :: nat
    assume "k < 15"
    with assms have "is_double (Math_random h k)" "0 \<le> Math_random h k" "Math_random h k < 1"
      by simp_all
    from random_index [OF this] show "0 \<le> ?index k \<and> ?index k < 62"
      by (simp add: validChar_length)
  qed
  have "\<forall>k \<in> set [0..<15]. charAt validChar (?index k) = [validChar ! nat (?index k)]"
    using idx by (simp add: charAt_def validChar_length)
  then have "concat (map (\<lambda>k. charAt validChar (?index k)) [0..<15]) =
             concat (map (\<lambda>k. [validChar ! nat (?index k)]) [0..<15])"
    by (intro arg_cong [where f = concat] map_cong) simp_all
  also have "\<dots> = map (\<lambda>k. validChar ! nat (?index k)) [0..<15]"
    by (induction "[0..<15]") (simp_all add: concat_map_singleton)
  finally have chars: "?name = map (\<lambda>k. validChar ! nat (?index k)) [0..<15]"
    by (simp add: generateRandomFilename_concat)
  from assms have len: "length ?name = 15"
    by (rule generateRandomFilename_length)
  have sub: "set ?name \<subseteq> set validChar"
    by (rule generateRandomFilename_subset)
  from validChar_alphanumeric have "\<forall>c\<in>set validChar. is_alphanumeric c"
    by (simp add: list_all_iff)
  with sub have "list_all is_alphanumeric ?name"
    by (auto simp add: list_all_iff)
  with len have pat: "matches_temp_pattern (?name @ ''.zip'')"
    by (simp add: matches_temp_pattern_def)
  have desc: "created s = [?name @ ''.zip''] \<and>
              path d = posix_join [process_cwd h AtClose, ?name @ ''.zip'']"
    if b: "bundle_run h filePath = Inr s" and r: "promise s = Resolved d" and t: "isTemporary d"
    for s d
  proof -
    from b obtain s0 where call: "packageFileFromPath h filePath = Inr s0"
      and s: "s = stream h s0"
      by (auto simp add: bundle_run_def split: sum.splits)
    from call show ?thesis
    proof (cases rule: packageFileFromPath_cases)
      case single
      with s have "promise s = Resolved \<lparr>isTemporary = False, path = filePath\<rparr>"
        by (simp add: stream_def start_def)
      with r t show ?thesis by auto
    next
      case (failed e)
      with s have "promise s = Rejected e" by (simp add: stream_def start_def)
      with r show ?thesis by simp
    next
      case (archived dirs files)
      from archived(2) have w: "wired (?name @ ''.zip'') s0"
        and c: "created s0 = [?name @ ''.zip'']" and p: "promise s0 = Pending"
        by (simp_all add: archived_state)
      from r s have "promise (stream h s0) = Resolved d" by simp
      from stream_resolved [OF w c p this]
      have d: "d = \<lparr>isTemporary = True,
                    path = posix_join [process_cwd h AtClose, ?name @ ''.zip'']\<rparr>"
        by simp
      from stream_fields [of h s0] s c have "created s = [?name @ ''.zip'']" by simp
      with d show ?thesis by simp
    qed
  qed
  from idx chars len sub pat desc validChar_length validChar_distinct validChar_alphanumeric
  show ?thesis by blast
qed

theorem temporary_name_pattern_witness:
  "Math_random example_host 0 * 62 < 16 \<and>
   \<lfloor>binary64 (Math_random example_host 0 * real (length validChar))\<rfloor> = 16 \<and>
   generateRandomFilename (Math_random example_host) 15 = ''Qffffffffffffff'' \<and>
   length (generateRandomFilename (Math_random example_host) 15) = 15 \<and>
   matches_temp_pattern (generateRandomFilename (Math_random example_host) 15 @ ''.zip'') \<and>
   (\<exists>s d. bundle_run example_host ''/p/root'' = Inr s \<and> promise s = Resolved d \<and>
      isTemporary d \<and> created s = [''Qffffffffffffff.zip''] \<and>
      path d = ''/home/u/proj/Qffffffffffffff.zip'')"
proof -
  have "\<forall>k<15. is_double (Math_random example_host k) \<and> 0 \<le> Math_random example_host k \<and>
          Math_random example_host k < 1"
    by (simp add: example_random_double)
  note t = temporary_name_pattern [OF this, of "''/p/root''"]
  from t have len: "length (generateRandomFilename (Math_random example_host) 15) = 15"
    and pat: "matches_temp_pattern (generateRandomFilename (Math_random example_host) 15 @ ''.zip'')"
    by blast+
  from t have "\<forall>s d. bundle_run example_host ''/p/root'' = Inr s \<and> promise s = Resolved d \<and>
      isTemporary d \<longrightarrow>
      created s = [generateRandomFilename (Math_random example_host) 15 @ ''.zip''] \<and>
      path d = posix_join [process_cwd example_host AtClose,
                           generateRandomFilename (Math_random example_host) 15 @ ''.zip'']"
    by blast
  then have run: "\<exists>s d. bundle_run example_host ''/p/root'' = Inr s \<and> promise s = Resolved d \<and>
      isTemporary d \<and> created s = [''Qffffffffffffff.zip''] \<and>
      path d = ''/home/u/proj/Qffffffffffffff.zip''"
    by (simp add: example_root_run)
  from rounded_up_product have low: "Math_random example_host 0 * 62 < 16"
    by (simp only: example_random(1) if_True simp_thms)
  have idx: "\<lfloor>binary64 (Math_random example_host 0 * real (length validChar))\<rfloor> = 16"
    by (simp only: example_index if_True simp_thms)
  from low idx example_name len pat run show ?thesis by blast
qed

subsection \<open>A source that cannot be read\<close>

text \<open>
  Claim C1 asks for a rejection when a scanned file cannot be read while the archive
  is streamed. The code registers its \<open>error\<close> listener on the write stream that
  \<open>pipe\<close> returns; \<open>yazl\<close> reports the failed read as an \<open>error\<close> event of the
  \<open>ZipFile\<close>, which has no listener. So, with a scanned file that cannot be read and
  a destination without failure, the promise is never rejected: it stays pending, the
  error is thrown where nothing catches it, and the file of the archive is left on
  the disk, open and not finalised. Whatever the libraries emit after the call, only
  an \<open>error\<close> event of the write stream can reject the promise.
\<close>

theorem unreadable_source_is_not_rejected:
  assumes "lstatSync (fs_nodes h) filePath = Inr st" and "isDirectory st"
    and "readdirr h filePath = Inr (dirs, files)"
    and "\<forall>f \<in> set files. \<exists>name.
           yazl_entry_name (entryName (process_cwd h InCallback) filePath f) = Inr name"
    and "file \<in> set files" and "fs_read h file = Inl e"
    and "fs_open_error h (posix_resolve (process_cwd h AtOpen)
           (generateRandomFilename (Math_random h) 15 @ ''.zip'')) = None"
    and "\<forall>k. fs_write_error h (posix_resolve (process_cwd h AtOpen)
           (generateRandomFilename (Math_random h) 15 @ ''.zip'')) k = None"
  shows "\<exists>s0 s. packageFileFromPath h filePath = Inr s0 \<and>
             bundle_run h filePath = Inr s \<and> promise s = Pending \<and> e \<in> set (uncaught s) \<and>
             (\<exists>name. (file, name) \<in> set (entries s) \<and>
                yazl_entry_name (entryName (process_cwd h InCallback) filePath file) = Inr name) \<and>
             ended s \<and>
             (\<exists>ms. disk s (posix_resolve (process_cwd h AtOpen)
                       (generateRandomFilename (Math_random h) 15 @ ''.zip'')) =
                     Some (Written ms False False)) \<and>
             (\<forall>evs. (\<forall>e'. (WriteStream, ErrorEvent e') \<notin> set evs) \<longrightarrow>
                    (\<forall>e'. promise (emit_all h s0 evs) \<noteq> Rejected e'))"
proof -
  let ?fileName = "generateRandomFilename (Math_random h) 15 @ ''.zip''"
  let ?dest = "posix_resolve (process_cwd h AtOpen) ?fileName"
  let ?R = "\<lambda>file (realPath, name). realPath = file \<and>
       yazl_entry_name (entryName (process_cwd h InCallback) filePath file) = Inr name"
  define s0 where "s0 = archive_files h filePath files (start\<lparr>scanned := [filePath]\<rparr>)"
  from assms(1-3) have call: "packageFileFromPath h filePath = Inr s0"
    by (simp add: packageFileFromPath_def Let_def s0_def)
  have w: "wired ?fileName s0" and c: "created s0 = [?fileName]" and p: "promise s0 = Pending"
    by (simp_all add: archived_state s0_def)
  from assms(4) archived_state(8) [where h = h and directoryPath = filePath and files = files and x = "[filePath]"]
  have en: "ended s0" by (simp add: s0_def)
  with archived_state(6) [of h filePath files "[filePath]"]
  have u: "uncaught s0 = []" and es: "list_all2 ?R files (entries s0)"
    by (simp_all add: s0_def)
  from assms(5) obtain i where i: "i < length files" "files ! i = file"
    by (auto simp add: in_set_conv_nth)
  from es i have il: "i < length (entries s0)" by (simp add: list_all2_lengthD)
  obtain realPath name where ent: "entries s0 ! i = (realPath, name)"
    by (cases "entries s0 ! i")
  from list_all2_nthD [OF es i(1)] i(2) ent
  have rp: "realPath = file"
    and nm: "yazl_entry_name (entryName (process_cwd h InCallback) filePath file) = Inr name"
    by simp_all
  from il ent rp have m: "(file, name) \<in> set (entries s0)"
    by (auto simp add: in_set_conv_nth)
  define s where "s = stream h s0"
  from call have b: "bundle_run h filePath = Inr s" by (simp add: bundle_run_def s_def)
  from stream_unreadable [OF w c p m assms(6,7,8)] u
  have pending: "promise s = Pending" and thrown: "e \<in> set (uncaught s)"
    and left: "\<exists>ms. disk s ?dest = Some (Written ms False False)"
    by (simp_all add: s_def)
  from stream_fields [of h s0]
  have same: "entries s = entries s0" "ended s = ended s0" by (simp_all add: s_def)
  from p have "\<forall>e'. promise s0 \<noteq> Rejected e'" by simp
  from rejected_by_write_stream_only [OF w this]
  have only: "\<forall>evs. (\<forall>e'. (WriteStream, ErrorEvent e') \<notin> set evs) \<longrightarrow>
                    (\<forall>e'. promise (emit_all h s0 evs) \<noteq> Rejected e')"
    by blast
  from m nm same have named: "\<exists>name. (file, name) \<in> set (entries s) \<and>
      yazl_entry_name (entryName (process_cwd h InCallback) filePath file) = Inr name"
    by auto
  from call b pending thrown named en same left only
  have "packageFileFromPath h filePath = Inr s0 \<and>
        bundle_run h filePath = Inr s \<and> promise s = Pending \<and> e \<in> set (uncaught s) \<and>
        (\<exists>name. (file, name) \<in> set (entries s) \<and>
           yazl_entry_name (entryName (process_cwd h InCallback) filePath file) = Inr name) \<and>
        ended s \<and>
        (\<exists>ms. disk s ?dest = Some (Written ms False False)) \<and>
        (\<forall>evs. (\<forall>e'. (WriteStream, ErrorEvent e') \<notin> set evs) \<longrightarrow>
               (\<forall>e'. promise (emit_all h s0 evs) \<noteq> Rejected e'))"
    by simp
  then show ?thesis by (intro exI)
qed

theorem unreadable_source_is_not_rejected_witness:
  "\<exists>s0 s. packageFileFromPath example_host_deleted ''/p/root'' = Inr s0 \<and>
       bundle_run example_host_deleted ''/p/root'' = Inr s \<and> promise s = Pending \<and>
       HostError ''ENOENT: open'' \<in> set (uncaught s) \<and>
       (''/p/root/sub/b.txt'', ''root/sub/b.txt'') \<in> set (entries s) \<and> ended s \<and>
       disk s ''/home/u/proj/Qffffffffffffff.zip'' =
         Some (Written [(''root/a.txt'', [1])] False False)"
  using unreadable_source_is_not_rejected
    [of example_host_deleted "''/p/root''" StatsDirectory
        "[''/p/root'', ''/p/root/sub'']" "[''/p/root/a.txt'', ''/p/root/sub/b.txt'']"
        "''/p/root/sub/b.txt''" "HostError ''ENOENT: open''"]
  by (simp add: example_deleted_fields isDirectory_def example_entries example_stored
      example_deleted_run) blast

subsection \<open>The members of the archive\<close>



subsection \<open>The parent of a directory path that ends in a name\<close>











subsection \<open>The names of the archive entries\<close>



end
